theory Spec2Isabelle
  imports Complex_Main "HOL-Library.Log_Nat"
begin

section \<open>Python values used by the media player\<close>

text \<open>
  Exceptions the modelled code can raise. A raising operation returns \<open>Inl (e, st)\<close>, where
  \<open>st\<close> is the object state at the moment of the raise: assignments made before the raise
  stay in effect, as they do in Python.
\<close>

datatype error =
    TypeError
  | UnboundLocalError
  | ZeroDivisionError
  | OverflowError
  | FileNotFoundError
  | SameFileError

subsection \<open>Decimal rendering of integers\<close>

definition digit_char :: "nat \<Rightarrow> char" where
  "digit_char d = ''0123456789'' ! (d mod 10)"

fun str_nat :: "nat \<Rightarrow> string" where
  "str_nat n = (if n < 10 then [digit_char n] else str_nat (n div 10) @ [digit_char (n mod 10)])"

declare str_nat.simps [simp del]

text \<open>
  \<open>f"{n:02}"\<close> for an integer \<open>n\<close>: sign-aware zero fill up to a total width of two
  characters; a longer rendering is left as it is.
\<close>

definition py_format_02 :: "int \<Rightarrow> string" where
  "py_format_02 n =
     (if n < 0
      then (let d = str_nat (nat (- n)) in CHR ''-'' # replicate (2 - (1 + length d)) CHR ''0'' @ d)
      else (let d = str_nat (nat n) in replicate (2 - length d) CHR ''0'' @ d))"

subsection \<open>\<open>MediaPlayer.format_time\<close>\<close>

text \<open>
  \<^verbatim>\<open>mins, secs = divmod(seconds, 60); return f"{mins:02}:{secs:02}"\<close>.
  Python's \<open>divmod\<close> on integers is floor division, as \<open>div\<close> and \<open>mod\<close> on \<open>int\<close> are.
\<close>

definition format_time :: "int \<Rightarrow> string" where
  "format_time seconds =
     (let mins = seconds div 60; secs = seconds mod 60
      in py_format_02 mins @ '':'' @ py_format_02 secs)"

subsection \<open>Reading a time back\<close>

definition digit_val :: "char \<Rightarrow> nat option" where
  "digit_val c =
     map_of [(CHR ''0'', 0), (CHR ''1'', 1), (CHR ''2'', 2), (CHR ''3'', 3), (CHR ''4'', 4),
             (CHR ''5'', 5), (CHR ''6'', 6), (CHR ''7'', 7), (CHR ''8'', 8), (CHR ''9'', 9)] c"

definition is_digit :: "char \<Rightarrow> bool" where
  "is_digit c = (digit_val c \<noteq> None)"

fun parse_digits :: "nat \<Rightarrow> string \<Rightarrow> nat option" where
  "parse_digits acc [] = Some acc"
| "parse_digits acc (c # cs) =
     (case digit_val c of None \<Rightarrow> None | Some d \<Rightarrow> parse_digits (10 * acc + d) cs)"

definition parse_nat :: "string \<Rightarrow> nat option" where
  "parse_nat s = (if s = [] then None else parse_digits 0 s)"

text \<open>
  Modelled from the spec: \<open>parseTime\<close>, the inverse of \<open>formatTime\<close> that the round-trip
  property of the specification names; the repository defines no such function. It reads a
  decimal minutes field up to the first colon and a decimal seconds field after it, and
  returns \<open>60 * minutes + seconds\<close>.
\<close>

definition parse_time :: "string \<Rightarrow> int option" where
  "parse_time s =
     (case dropWhile (\<lambda>c. c \<noteq> CHR '':'') s of
        [] \<Rightarrow> None
      | _ # ss \<Rightarrow>
          (case parse_nat (takeWhile (\<lambda>c. c \<noteq> CHR '':'') s) of
             None \<Rightarrow> None
           | Some m \<Rightarrow>
               (case parse_nat ss of
                  None \<Rightarrow> None
                | Some k \<Rightarrow> Some (int (60 * m + k)))))"

section \<open>Double-precision arithmetic of the progress computation\<close>

text \<open>
  Python's \<open>float\<close> is IEEE-754 binary64. A finite double is modelled by the rational number
  it denotes; every operation computes the exact rational result and rounds it to the
  nearest double, ties to even, as the hardware (and CPython's correctly rounded integer
  true division) does. Subnormal results are rounded on the fixed grid of spacing
  \<open>pow2 (- 1074)\<close>; a result that rounds to \<open>pow2 1024\<close> or beyond has no finite double.
\<close>

definition pow2 :: "int \<Rightarrow> rat" where
  "pow2 k = (if 0 \<le> k then 2 ^ nat k else 1 / 2 ^ nat (- k))"

text \<open>For \<open>x > 0\<close>, \<open>ilog2 x\<close> is the exponent \<open>e\<close> with \<open>pow2 e \<le> x < pow2 (e + 1)\<close>.\<close>

definition ilog2 :: "rat \<Rightarrow> int" where
  "ilog2 x =
     (let (p, q) = quotient_of x; e = bitlen p - bitlen q
      in if pow2 e \<le> x then e else e - 1)"

definition round_half_even :: "rat \<Rightarrow> int" where
  "round_half_even r =
     (let f = \<lfloor>r\<rfloor>; d = r - of_int f
      in if d < 1 / 2 then f else if 1 / 2 < d then f + 1 else if even f then f else f + 1)"

text \<open>The spacing of the doubles around \<open>x\<close>: 53 significant bits, least exponent \<open>-1022\<close>.\<close>

definition ulp :: "rat \<Rightarrow> rat" where
  "ulp x = pow2 (max (ilog2 \<bar>x\<bar>) (- 1022) - 52)"

text \<open>Rounding to the nearest double; \<open>None\<close> stands for an infinity.\<close>

definition b64_round :: "rat \<Rightarrow> rat option" where
  "b64_round x =
     (if x = 0 then Some 0
      else (let y = of_int (round_half_even (x / ulp x)) * ulp x
            in if pow2 1024 \<le> \<bar>y\<bar> then None else Some y))"

text \<open>\<open>a / b\<close> on two integers: correctly rounded, raising where the quotient is too large.\<close>

definition py_truediv :: "int \<Rightarrow> int \<Rightarrow> error + rat" where
  "py_truediv a b =
     (if b = 0 then Inl ZeroDivisionError
      else (case b64_round (of_int a / of_int b) of
              None \<Rightarrow> Inl OverflowError
            | Some q \<Rightarrow> Inr q))"

text \<open>\<open>float(n)\<close>, the conversion applied to an integer operand of a float operation.\<close>

definition py_float :: "int \<Rightarrow> error + rat" where
  "py_float n = (case b64_round (of_int n) of None \<Rightarrow> Inl OverflowError | Some q \<Rightarrow> Inr q)"

text \<open>\<open>x * n\<close> for a float \<open>x\<close> and an integer \<open>n\<close>; the product may be an infinity.\<close>

definition py_mul_int :: "rat \<Rightarrow> int \<Rightarrow> error + rat option" where
  "py_mul_int x n = (case py_float n of Inl e \<Rightarrow> Inl e | Inr m \<Rightarrow> Inr (b64_round (x * m)))"

text \<open>\<open>int(x)\<close> truncates towards zero and raises on an infinity.\<close>

definition py_int :: "rat option \<Rightarrow> error + int" where
  "py_int x =
     (case x of
        None \<Rightarrow> Inl OverflowError
      | Some y \<Rightarrow> Inr (if 0 \<le> y then \<lfloor>y\<rfloor> else \<lceil>y\<rceil>))"

text \<open>\<open>math.ceil(x)\<close>.\<close>

definition py_ceil :: "rat option \<Rightarrow> error + int" where
  "py_ceil x = (case x of None \<Rightarrow> Inl OverflowError | Some y \<Rightarrow> Inr \<lceil>y\<rceil>)"

text \<open>
  The expression of \<open>update_player\<close>:
  \<^verbatim>\<open>int((self.track_current_time / self.track_total_time) * 100)\<close>.
\<close>

definition progress_value :: "int \<Rightarrow> int \<Rightarrow> error + int" where
  "progress_value current total_time =
     (case py_truediv current total_time of
        Inl e \<Rightarrow> Inl e
      | Inr q \<Rightarrow> (case py_mul_int q 100 of Inl e \<Rightarrow> Inl e | Inr v \<Rightarrow> py_int v))"

text \<open>
  The progress value as the specification words it:
  \<open>round(current_time / total_time * 100)\<close>, clamped to \<open>[0, 100]\<close>, in exact arithmetic.
\<close>

definition spec_progress :: "int \<Rightarrow> int \<Rightarrow> int" where
  "spec_progress current total_time =
     max 0 (min 100 (round_half_even (of_int current / of_int total_time * 100)))"

section \<open>The decoder handle\<close>

text \<open>
  The playback library is used as a black box. The handle keeps what the controller asked
  of it: the medium set, the transport state, the position last requested through
  \<open>set_time\<close> (milliseconds) and the rate. What the library reports back, the current
  position \<open>get_time()\<close> and the duration of a parsed medium, is an argument of the
  operations that read it.
\<close>

datatype vlc_state =
  NothingSpecial | Opening | Buffering | Playing | Paused | Stopped | Ended | Error_state

record vlc_player =
  p_media :: "string option"
  p_state :: vlc_state
  p_set_time :: "int option"
  p_rate :: rat

definition vlc_MediaPlayer :: vlc_player where
  "vlc_MediaPlayer = \<lparr>p_media = None, p_state = NothingSpecial, p_set_time = None, p_rate = 1\<rparr>"

definition vlc_play :: "vlc_player \<Rightarrow> vlc_player" where
  "vlc_play p = p\<lparr>p_state := Playing\<rparr>"

text \<open>The library's \<open>pause\<close> toggles between playing and paused.\<close>

definition vlc_pause :: "vlc_player \<Rightarrow> vlc_player" where
  "vlc_pause p =
     p\<lparr>p_state := (if p_state p = Playing then Paused
                   else if p_state p = Paused then Playing else p_state p)\<rparr>"

definition vlc_stop :: "vlc_player \<Rightarrow> vlc_player" where
  "vlc_stop p = p\<lparr>p_state := Stopped\<rparr>"

definition vlc_set_time :: "int \<Rightarrow> vlc_player \<Rightarrow> vlc_player" where
  "vlc_set_time ms p = p\<lparr>p_set_time := Some ms\<rparr>"

definition vlc_set_rate :: "rat \<Rightarrow> vlc_player \<Rightarrow> vlc_player" where
  "vlc_set_rate r p = p\<lparr>p_rate := r\<rparr>"

definition vlc_set_media :: "string \<Rightarrow> vlc_player \<Rightarrow> vlc_player" where
  "vlc_set_media m p = p\<lparr>p_media := Some m\<rparr>"

section \<open>Path validation (\<open>GUI.Widget.check_path\<close>)\<close>

text \<open>The file system as \<open>pathlib\<close> shows it: existence, kind and suffix of a path.\<close>

record fsys =
  path_exists :: "string \<Rightarrow> bool"
  path_is_file :: "string \<Rightarrow> bool"
  path_suffix :: "string \<Rightarrow> string"

datatype pyval = PyPath string | PyStr string | PyFalse | PyNone

fun truthy_val :: "pyval \<Rightarrow> bool" where
  "truthy_val (PyPath p) = True"
| "truthy_val (PyStr s) = (s \<noteq> [])"
| "truthy_val PyFalse = False"
| "truthy_val PyNone = False"

text \<open>
  The result and the lines printed. A file of the wrong suffix falls out of the first
  branch without a \<open>return\<close>, which yields \<open>None\<close>.
\<close>

definition check_path :: "fsys \<Rightarrow> string \<Rightarrow> string \<Rightarrow> pyval \<times> string list" where
  "check_path fs path type =
     (if path_exists fs path \<and> path_is_file fs path then
        (if type = ''image'' \<and> path_suffix fs path \<in> set [''.jpg'', ''.png'', ''.jpeg'']
         then (PyPath path, [])
         else if type = ''pdf'' \<and> path_suffix fs path \<in> set [''.pdf'']
         then (PyPath path, [])
         else if type = ''audio'' \<and> path_suffix fs path \<in> set [''.ogg'', ''.wav'', ''.mp3'', ''.raw'']
         then (PyPath path, [])
         else (PyNone, []))
      else if type = ''folder'' \<and> path_exists fs path then (PyPath path, [])
      else (PyFalse, [''Incorrect file path'']))"

text \<open>
  \<open>check_path(self, path, type)\<close> is a plain function of the class: reached through the
  class, it takes its three parameters from the positional arguments of the call, and a call
  with another number of arguments raises \<open>TypeError\<close> before the body runs.
\<close>

definition call_check_path :: "fsys \<Rightarrow> string list \<Rightarrow> error + pyval \<times> string list" where
  "call_check_path fs args =
     (case args of
        [self, path, type] \<Rightarrow> Inr (check_path fs path type)
      | _ \<Rightarrow> Inl TypeError)"


section \<open>The media player controller (\<open>media_player.MediaPlayer\<close>)\<close>

text \<open>
  The attributes of the controller and the part of its widgets that the operations write:
  the texts of the three labels and the value of the progress bar. The record describes a
  controller whose widgets exist, that is, after \<open>load_ui\<close>. \<open>track\<close> is the medium object,
  named by the path it was made from; \<open>track_timer\<close> tells whether the polling timer is
  active. Speeds are the numbers \<open>0.5\<close>, \<open>1\<close>, \<open>1.5\<close>, \<open>2\<close>; Python compares an \<open>int\<close> with a
  \<open>float\<close> by value.
\<close>

record MediaPlayer =
  track :: "string option"
  track_name :: "string option"
  player :: vlc_player
  track_speed :: rat
  track_speed_list :: "rat list"
  track_current_time :: int
  track_total_time :: int
  track_timer :: bool
  track_title :: string
  track_current_time_label :: string
  track_total_time_label :: string
  track_bar :: int

type_synonym 'a result = "(error \<times> 'a) + 'a"

text \<open>
  \<open>__init__\<close> followed by \<open>load_ui\<close>. A progress bar starts without a value, which the
  toolkit represents by \<open>-1\<close>.
\<close>

definition MediaPlayer_init :: MediaPlayer where
  "MediaPlayer_init =
     \<lparr>track = None, track_name = None, player = vlc_MediaPlayer,
      track_speed = 1, track_speed_list = [1 / 2, 1, 3 / 2, 2],
      track_current_time = 0, track_total_time = 0, track_timer = False,
      track_title = ''[ NOT LOADED ]'', track_current_time_label = ''00:00'',
      track_total_time_label = ''00:00'', track_bar = - 1\<rparr>"

text \<open>Truth value of an argument that is a string or \<open>None\<close>.\<close>

fun truthy :: "string option \<Rightarrow> bool" where
  "truthy None = False"
| "truthy (Some s) = (s \<noteq> [])"

text \<open>
  \<open>QProgressBar.setValue\<close> on the range \<open>0..100\<close> set by \<open>ScaleBar\<close>: a value outside the
  range is ignored, and one that does not fit the toolkit's 32-bit \<open>int\<close> is refused.
\<close>

definition setValue :: "int \<Rightarrow> int \<Rightarrow> error + int" where
  "setValue v bar =
     (if v < - (2 ^ 31) \<or> 2 ^ 31 \<le> v then Inl OverflowError
      else if 0 \<le> v \<and> v \<le> 100 then Inr v else Inr bar)"

text \<open>
  \<open>load_audio\<close>. The local \<open>audio_path\<close> is \<open>None\<close> here while it is unbound. The call of
  \<open>check_path\<close> passes two arguments, the path and \<open>'audio'\<close>. \<open>duration\<close> is the duration in
  milliseconds that the library reports for a parsed medium.
\<close>

definition load_audio ::
  "fsys \<Rightarrow> (string \<Rightarrow> int) \<Rightarrow> string option \<Rightarrow> string option \<Rightarrow> string \<Rightarrow> MediaPlayer
     \<Rightarrow> MediaPlayer result" where
  "load_audio fs duration file_path file file_name st =
     (case (if truthy file_path
            then (case call_check_path fs [the file_path, ''audio''] of
                    Inl e \<Rightarrow> Inl e
                  | Inr (v, printed) \<Rightarrow> Inr (Some v))
            else if truthy file then Inr (Some (PyStr (the file)))
            else Inr None) of
        Inl e \<Rightarrow> Inl (e, st)
      | Inr audio_path \<Rightarrow>
          (let st1 = st\<lparr>track_name := Some file_name\<rparr>
           in case audio_path of
                None \<Rightarrow> Inl (UnboundLocalError, st1)
              | Some v \<Rightarrow>
                  (if truthy_val v then
                     (let m = (case v of PyPath p \<Rightarrow> p | PyStr s \<Rightarrow> s | _ \<Rightarrow> []);
                          st2 = st1\<lparr>track := Some m\<rparr>;
                          st3 = st2\<lparr>player := vlc_set_media m (player st2)\<rparr>;
                          st4 = st3\<lparr>track_title := file_name\<rparr>;
                          st5 = st4\<lparr>track_total_time := duration m div 1000\<rparr>
                      in Inr (st5\<lparr>track_total_time_label := format_time (track_total_time st5)\<rparr>))
                   else Inr st1)))"

definition play :: "MediaPlayer \<Rightarrow> MediaPlayer" where
  "play st = (let st1 = st\<lparr>track_timer := True\<rparr> in st1\<lparr>player := vlc_play (player st1)\<rparr>)"

definition pause :: "MediaPlayer \<Rightarrow> MediaPlayer" where
  "pause st =
     (let st1 = st\<lparr>player := vlc_pause (player st)\<rparr>
      in if track_timer st1 then st1\<lparr>track_timer := False\<rparr> else st1)"

definition reset_player :: "MediaPlayer \<Rightarrow> MediaPlayer" where
  "reset_player st =
     (let st1 = st\<lparr>track_current_time := 0\<rparr>;
          st2 = st1\<lparr>track_bar := (case setValue 0 (track_bar st1) of Inr b \<Rightarrow> b | Inl e \<Rightarrow> track_bar st1)\<rparr>;
          st3 = st2\<lparr>track_current_time_label := format_time (track_current_time st2)\<rparr>
      in st3\<lparr>track_timer := False\<rparr>)"

definition stop :: "MediaPlayer \<Rightarrow> MediaPlayer" where
  "stop st = reset_player (st\<lparr>player := vlc_stop (player st)\<rparr>)"

text \<open>
  The skips read the position \<open>now\<close> (milliseconds) from the decoder and hand it a new one.
\<close>

definition skip_forward :: "int \<Rightarrow> int \<Rightarrow> MediaPlayer \<Rightarrow> MediaPlayer" where
  "skip_forward now seconds st =
     st\<lparr>player := vlc_set_time (now + seconds * 1000) (player st)\<rparr>"

definition skip_backwards :: "int \<Rightarrow> int \<Rightarrow> MediaPlayer \<Rightarrow> MediaPlayer" where
  "skip_backwards now seconds st =
     st\<lparr>player := vlc_set_time (max 0 (now - seconds * 1000)) (player st)\<rparr>"

definition seek :: "int \<Rightarrow> MediaPlayer \<Rightarrow> MediaPlayer" where
  "seek seconds st =
     (if p_state (player st) \<noteq> Playing then
        (let st1 = play st;
             st2 = st1\<lparr>player := vlc_set_time (seconds * 1000) (player st1)\<rparr>
         in pause st2)
      else st\<lparr>player := vlc_set_time (seconds * 1000) (player st)\<rparr>)"

definition set_speed :: "rat \<Rightarrow> MediaPlayer \<Rightarrow> MediaPlayer" where
  "set_speed speed st = st\<lparr>player := vlc_set_rate speed (player st)\<rparr>"

text \<open>
  \<open>switch_speed\<close>: the loop over \<open>enumerate(self.track_speed_list)\<close>, from position \<open>index\<close> on.
  The first entry equal to the current speed decides and ends the loop. The icon of the speed
  button, set after the rate, is not part of the record.
\<close>

fun switch_speed_loop :: "nat \<Rightarrow> rat list \<Rightarrow> MediaPlayer \<Rightarrow> MediaPlayer" where
  "switch_speed_loop index [] st = st"
| "switch_speed_loop index (current_speed # rest) st =
     (if current_speed = track_speed st then
        (let st1 = (if index + 1 < length (track_speed_list st)
                    then st\<lparr>track_speed := track_speed_list st ! (index + 1)\<rparr>
                    else st\<lparr>track_speed := 1 / 2\<rparr>)
         in set_speed (track_speed st1) st1)
      else switch_speed_loop (index + 1) rest st)"

definition switch_speed :: "MediaPlayer \<Rightarrow> MediaPlayer" where
  "switch_speed st = switch_speed_loop 0 (track_speed_list st) st"

text \<open>
  \<open>update_player\<close>, the slot of the polling timer. \<open>refresh\<close> is the first branch: it reads
  the decoder's position \<open>now\<close> and writes the stored position, the bar and the label.
\<close>

definition refresh :: "int \<Rightarrow> MediaPlayer \<Rightarrow> MediaPlayer result" where
  "refresh now st =
     (let st1 = st\<lparr>track_current_time := now div 1000\<rparr>
      in case progress_value (track_current_time st1) (track_total_time st1) of
           Inl e \<Rightarrow> Inl (e, st1)
         | Inr v \<Rightarrow>
             (case setValue v (track_bar st1) of
                Inl e \<Rightarrow> Inl (e, st1)
              | Inr b \<Rightarrow>
                  (let st2 = st1\<lparr>track_bar := b\<rparr>
                   in Inr (st2\<lparr>track_current_time_label := format_time (track_current_time st2)\<rparr>))))"

definition update_player :: "int \<Rightarrow> MediaPlayer \<Rightarrow> MediaPlayer result" where
  "update_player now st =
     (if track_current_time st \<le> track_total_time st - 1 then refresh now st
      else Inr (stop st))"

text \<open>
  The polling tick as the specification words it: the position read from the decoder
  decides, and \<open>position >= totalDuration - 1\<close> stops.
\<close>

definition spec_update_player :: "int \<Rightarrow> MediaPlayer \<Rightarrow> MediaPlayer result" where
  "spec_update_player now st =
     (if track_total_time st - 1 \<le> now div 1000 then Inr (stop st) else refresh now st)"

text \<open>\<open>x + n\<close> for a float \<open>x\<close> (possibly an infinity) and an integer \<open>n\<close>.\<close>

definition py_add_int :: "rat option \<Rightarrow> int \<Rightarrow> error + rat option" where
  "py_add_int x n =
     (case py_float n of
        Inl e \<Rightarrow> Inl e
      | Inr m \<Rightarrow> Inr (case x of None \<Rightarrow> None | Some y \<Rightarrow> b64_round (y + m)))"

text \<open>
  \<open>track_bar_clicked\<close>, with the horizontal position \<open>x\<close> of the click and the \<open>width\<close> of the
  bar; the range of the bar is \<open>0..100\<close>.
\<close>

definition new_track_value :: "int \<Rightarrow> int \<Rightarrow> error + int" where
  "new_track_value x width =
     (case py_truediv x width of
        Inl e \<Rightarrow> Inl e
      | Inr click_position \<Rightarrow>
          (case py_mul_int click_position (100 - 0) of
             Inl e \<Rightarrow> Inl e
           | Inr scaled \<Rightarrow>
               (case py_add_int scaled 0 of Inl e \<Rightarrow> Inl e | Inr v \<Rightarrow> py_int v)))"

definition clicked_time :: "int \<Rightarrow> int \<Rightarrow> error + int" where
  "clicked_time new_value total_time =
     (case py_truediv new_value 100 of
        Inl e \<Rightarrow> Inl e
      | Inr q \<Rightarrow> (case py_mul_int q total_time of Inl e \<Rightarrow> Inl e | Inr v \<Rightarrow> py_ceil v))"

definition track_bar_clicked :: "int \<Rightarrow> int \<Rightarrow> MediaPlayer \<Rightarrow> MediaPlayer result" where
  "track_bar_clicked x width st =
     (case new_track_value x width of
        Inl e \<Rightarrow> Inl (e, st)
      | Inr v \<Rightarrow>
          (case clicked_time v (track_total_time st) of
             Inl e \<Rightarrow> Inl (e, st)
           | Inr t \<Rightarrow>
               (let st1 = st\<lparr>track_current_time := t\<rparr>
                in case setValue v (track_bar st1) of
                     Inl e \<Rightarrow> Inl (e, st1)
                   | Inr b \<Rightarrow>
                       (let st2 = st1\<lparr>track_bar := b\<rparr>;
                            st3 = st2\<lparr>track_current_time_label := format_time (track_current_time st2)\<rparr>
                        in Inr (seek (track_current_time st3) st3)))))"

subsection \<open>Sequences of calls\<close>

text \<open>
  The methods of the controller as calls. \<open>Skip_forward\<close>, \<open>Skip_backwards\<close> and
  \<open>Update_player\<close> carry first the position that the decoder reports during the call;
  \<open>Track_bar_clicked\<close> carries the click position and the width of the bar. A run ends at
  the first call that raises.
\<close>

datatype call =
    Load_audio "string option" "string option" string
  | Play
  | Pause
  | Stop
  | Skip_forward int int
  | Skip_backwards int int
  | Seek int
  | Set_speed rat
  | Switch_speed
  | Reset_player
  | Update_player int
  | Track_bar_clicked int int

fun exec :: "fsys \<Rightarrow> (string \<Rightarrow> int) \<Rightarrow> call \<Rightarrow> MediaPlayer \<Rightarrow> MediaPlayer result" where
  "exec fs duration (Load_audio file_path file file_name) st =
     load_audio fs duration file_path file file_name st"
| "exec fs duration Play st = Inr (play st)"
| "exec fs duration Pause st = Inr (pause st)"
| "exec fs duration Stop st = Inr (stop st)"
| "exec fs duration (Skip_forward now seconds) st = Inr (skip_forward now seconds st)"
| "exec fs duration (Skip_backwards now seconds) st = Inr (skip_backwards now seconds st)"
| "exec fs duration (Seek seconds) st = Inr (seek seconds st)"
| "exec fs duration (Set_speed speed) st = Inr (set_speed speed st)"
| "exec fs duration Switch_speed st = Inr (switch_speed st)"
| "exec fs duration Reset_player st = Inr (reset_player st)"
| "exec fs duration (Update_player now) st = update_player now st"
| "exec fs duration (Track_bar_clicked x width) st = track_bar_clicked x width st"

fun run :: "fsys \<Rightarrow> (string \<Rightarrow> int) \<Rightarrow> call list \<Rightarrow> MediaPlayer \<Rightarrow> MediaPlayer result" where
  "run fs duration [] st = Inr st"
| "run fs duration (c # cs) st =
     (case exec fs duration c st of Inl e \<Rightarrow> Inl e | Inr st' \<Rightarrow> run fs duration cs st')"

text \<open>The state a result leaves behind, whether the call returned or raised.\<close>

fun state_of :: "'a result \<Rightarrow> 'a" where
  "state_of (Inl (e, st)) = st"
| "state_of (Inr st) = st"

section \<open>The application (\<open>PdfToAudio.PdfToAudio\<close>)\<close>

text \<open>
  What the application shows to the user beyond its widgets: a file dialog with its caption,
  start directory and filter, or a line printed on the console.
\<close>

datatype ui_event = Save_file_dialog string string string | Printed string

text \<open>
  With the attributes of the application, the record carries the surroundings that
  \<open>save_audio\<close> acts on: the contents of the regular files, by path, and what has been shown
  to the user so far.
\<close>

record PdfToAudio =
  media_player :: MediaPlayer
  speech :: "string option"
  files :: "string \<rightharpoonup> string"
  shown :: "ui_event list"



text \<open>
  \<open>pdf_to_audio\<close> after the synthesis: the path \<open>temp\<close> of the speech file is stored and
  loaded through the \<open>file\<close> parameter under the name \<open>file_name\<close>.
\<close>

definition load_speech ::
  "fsys \<Rightarrow> (string \<Rightarrow> int) \<Rightarrow> string \<Rightarrow> string \<Rightarrow> PdfToAudio \<Rightarrow> PdfToAudio result" where
  "load_speech fs duration temp file_name app =
     (let app1 = app\<lparr>speech := Some temp\<rparr>
      in case load_audio fs duration None (Some temp) file_name (media_player app1) of
           Inl (e, mp) \<Rightarrow> Inl (e, app1\<lparr>media_player := mp\<rparr>)
         | Inr mp \<Rightarrow> Inr (app1\<lparr>media_player := mp\<rparr>))"

section \<open>A sample environment\<close>

text \<open>
  Two speech files, of ten seconds and a half and of three seconds and a fifth, for the
  closed instances below. For a path that is not a medium the library reports the duration
  \<open>-1\<close>.
\<close>

definition sample_fs :: fsys where
  "sample_fs =
     \<lparr>path_exists = (\<lambda>p. p = ''speech.mp3'' \<or> p = ''short.mp3''),
      path_is_file = (\<lambda>p. p = ''speech.mp3'' \<or> p = ''short.mp3''),
      path_suffix = (\<lambda>p. drop (length p - 4) p)\<rparr>"

definition sample_duration :: "string \<Rightarrow> int" where
  "sample_duration p =
     (if p = ''speech.mp3'' then 10500 else if p = ''short.mp3'' then 3200 else - 1)"

definition sample_loaded :: MediaPlayer where
  "sample_loaded =
     MediaPlayer_init
       \<lparr>track := Some ''speech.mp3'', track_name := Some ''speech'',
        player := vlc_MediaPlayer\<lparr>p_media := Some ''speech.mp3''\<rparr>,
        track_total_time := 10, track_title := ''speech'',
        track_total_time_label := ''00:10''\<rparr>"

text \<open>The long file playing, five seconds in; and the short file loaded.\<close>

definition sample_playing :: MediaPlayer where
  "sample_playing =
     sample_loaded
       \<lparr>player := vlc_MediaPlayer\<lparr>p_media := Some ''speech.mp3'', p_state := Playing\<rparr>,
        track_timer := True, track_current_time := 5, track_bar := 50,
        track_current_time_label := ''00:05''\<rparr>"

definition sample_short :: MediaPlayer where
  "sample_short =
     MediaPlayer_init
       \<lparr>track := Some ''short.mp3'', track_name := Some ''short'',
        player := vlc_MediaPlayer\<lparr>p_media := Some ''short.mp3''\<rparr>,
        track_total_time := 3, track_title := ''short'',
        track_total_time_label := ''00:03''\<rparr>"

definition sample_app :: PdfToAudio where
  "sample_app =
     \<lparr>media_player = sample_loaded, speech = Some ''speech.mp3'',
      files = [''speech.mp3'' \<mapsto> ''audio bytes''], shown = []\<rparr>"

definition fresh_app :: PdfToAudio where
  "fresh_app =
     \<lparr>media_player = MediaPlayer_init, speech = None,
      files = Map.empty, shown = []\<rparr>"

section \<open>Predicates of the properties\<close>

text \<open>The speed list is the one set at construction and the speed is one of its entries.\<close>

definition speed_inv :: "MediaPlayer \<Rightarrow> bool" where
  "speed_inv st =
     (track_speed_list st = [1 / 2, 1, 3 / 2, 2] \<and> track_speed st \<in> set (track_speed_list st))"

definition speeds :: "MediaPlayer \<Rightarrow> rat \<times> rat list" where
  "speeds st = (track_speed st, track_speed_list st)"

text \<open>
  The position last handed to the decoder, in milliseconds, lies within the track, whose
  length \<open>track_total_time\<close> is in seconds.
\<close>

definition target_in_track :: "MediaPlayer \<Rightarrow> bool" where
  "target_in_track st =
     (case p_set_time (player st) of
        None \<Rightarrow> True
      | Some t \<Rightarrow> 0 \<le> t \<and> t \<le> track_total_time st * 1000)"




section \<open>Properties of \<open>format_time\<close>\<close>

lemma lt10_cases:
  "(d::nat) < 10 \<Longrightarrow> d = 0 \<or> d = 1 \<or> d = 2 \<or> d = 3 \<or> d = 4 \<or> d = 5 \<or> d = 6 \<or> d = 7 \<or> d = 8 \<or> d = 9"
  by arith

lemma digit_val_digit_char: "d < 10 \<Longrightarrow> digit_val (digit_char d) = Some d"
  by (drule lt10_cases) (auto simp: digit_val_def digit_char_def)

lemma digit_char_not_colon: "digit_char d \<noteq> CHR '':''"
proof -
  have "d mod 10 < 10" by simp
  from lt10_cases [OF this] show ?thesis
    unfolding digit_char_def by (elim disjE) simp_all
qed

lemma is_digit_digit_char: "is_digit (digit_char k)"
  using digit_val_digit_char [of "k mod 10"] by (simp add: is_digit_def digit_char_def)

lemma parse_digits_append:
  "parse_digits acc (xs @ ys) = (case parse_digits acc xs of None \<Rightarrow> None | Some a \<Rightarrow> parse_digits a ys)"
  by (induction xs arbitrary: acc) (auto split: option.splits)

lemma parse_digits_str_nat: "parse_digits 0 (str_nat n) = Some n"
proof (induction n rule: str_nat.induct)
  case (1 n)
  show ?case
  proof (cases "n < 10")
    case True
    then show ?thesis
      by (subst str_nat.simps) (simp add: digit_val_digit_char)
  next
    case False
    with 1 have ih: "parse_digits 0 (str_nat (n div 10)) = Some (n div 10)" by simp
    have "n mod 10 < 10" by simp
    then have dv: "digit_val (digit_char (n mod 10)) = Some (n mod 10)"
      by (rule digit_val_digit_char)
    from False show ?thesis
      by (subst str_nat.simps) (simp add: parse_digits_append ih dv)
  qed
qed

lemma str_nat_nonempty: "str_nat n \<noteq> []"
  by (subst str_nat.simps) simp

lemma str_nat_no_colon: "CHR '':'' \<notin> set (str_nat n)"
proof (induction n rule: str_nat.induct)
  case (1 n)
  show ?case
  proof (cases "n < 10")
    case True
    then show ?thesis
      using digit_char_not_colon [of n] by (subst str_nat.simps) auto
  next
    case False
    with 1 have "CHR '':'' \<notin> set (str_nat (n div 10))" by simp
    with False show ?thesis
      using digit_char_not_colon [of "n mod 10"] by (subst str_nat.simps) auto
  qed
qed

lemma str_nat_is_digit: "c \<in> set (str_nat n) \<Longrightarrow> is_digit c"
proof (induction n arbitrary: c rule: str_nat.induct)
  case (1 n)
  show ?case
  proof (cases "n < 10")
    case True
    with 1(2) show ?thesis
      by (subst (asm) str_nat.simps) (simp add: is_digit_digit_char)
  next
    case False
    with 1 show ?thesis
      by (subst (asm) (2) str_nat.simps) (auto simp: is_digit_digit_char)
  qed
qed

lemma str_nat_length_lt10: "n < 10 \<Longrightarrow> length (str_nat n) = 1"
  by (subst str_nat.simps) simp

lemma str_nat_length_ge10: "10 \<le> n \<Longrightarrow> 2 \<le> length (str_nat n)"
  using str_nat_nonempty [of "n div 10"]
  by (subst str_nat.simps) (cases "str_nat (n div 10)"; simp)

lemma str_nat_length_lt100: "10 \<le> n \<Longrightarrow> n < 100 \<Longrightarrow> length (str_nat n) = 2"
  by (subst str_nat.simps) (simp add: str_nat_length_lt10)

lemma is_digit_zero: "is_digit CHR ''0''"
  by (simp add: is_digit_def digit_val_def)

lemma parse_digits_zeros: "parse_digits 0 (replicate k CHR ''0'' @ d) = parse_digits 0 d"
  by (induction k) (simp_all add: digit_val_def)

lemma py_format_02_nonneg:
  assumes "0 \<le> n"
  shows "py_format_02 n = replicate (2 - length (str_nat (nat n))) CHR ''0'' @ str_nat (nat n)"
  using assms by (simp add: py_format_02_def Let_def)

lemma py_format_02_parse: "0 \<le> n \<Longrightarrow> parse_nat (py_format_02 n) = Some (nat n)"
  by (simp add: py_format_02_nonneg parse_nat_def str_nat_nonempty parse_digits_zeros
      parse_digits_str_nat)

lemma py_format_02_digits: "0 \<le> n \<Longrightarrow> c \<in> set (py_format_02 n) \<Longrightarrow> is_digit c"
  by (auto simp: py_format_02_nonneg is_digit_zero str_nat_is_digit)

lemma py_format_02_no_colon: "0 \<le> n \<Longrightarrow> CHR '':'' \<notin> set (py_format_02 n)"
  by (auto simp: py_format_02_nonneg str_nat_no_colon)

lemma py_format_02_length_ge: "0 \<le> n \<Longrightarrow> 2 \<le> length (py_format_02 n)"
  by (simp add: py_format_02_nonneg)

lemma py_format_02_length_lt100:
  assumes "0 \<le> n" "n < 100"
  shows "length (py_format_02 n) = 2"
proof (cases "n < 10")
  case True
  with assms have "length (str_nat (nat n)) = 1" by (intro str_nat_length_lt10) simp
  with assms show ?thesis by (simp add: py_format_02_nonneg)
next
  case False
  with assms have "length (str_nat (nat n)) = 2" by (intro str_nat_length_lt100) simp_all
  with assms show ?thesis by (simp add: py_format_02_nonneg)
qed

lemma parse_time_join:
  assumes "CHR '':'' \<notin> set m" "parse_nat m = Some a" "parse_nat ss = Some b"
  shows "parse_time (m @ '':'' @ ss) = Some (int (60 * a + b))"
proof -
  from assms(1) have "dropWhile (\<lambda>c. c \<noteq> CHR '':'') (m @ '':'' @ ss) = '':'' @ ss"
    by (auto simp: dropWhile_append3)
  moreover from assms(1) have "takeWhile (\<lambda>c. c \<noteq> CHR '':'') (m @ '':'' @ ss) = m"
    by (auto simp: takeWhile_tail)
  ultimately show ?thesis
    using assms(2,3) by (simp add: parse_time_def)
qed

lemma format_time_4503: "format_time 4503 = ''75:03''"
proof -
  have a: "str_nat 75 = ''75''"
    by (simp add: str_nat.simps [of 75] str_nat.simps [of 7] digit_char_def)
  have b: "str_nat 3 = ''3''"
    by (simp add: str_nat.simps [of 3] digit_char_def)
  show ?thesis
    by (simp add: format_time_def py_format_02_def a b)
qed

lemma digit_char_nonzero: "0 < d \<Longrightarrow> d < 10 \<Longrightarrow> digit_char d \<noteq> CHR ''0''"
  by (drule lt10_cases) (auto simp: digit_char_def)

lemma str_nat_hd: "0 < n \<Longrightarrow> hd (str_nat n) \<noteq> CHR ''0''"
proof (induction n rule: str_nat.induct)
  case (1 n)
  show ?case
  proof (cases "n < 10")
    case True
    with 1(2) show ?thesis
      by (subst str_nat.simps) (simp add: digit_char_nonzero)
  next
    case False
    then have "0 < n div 10" by simp
    with 1(1) False have "hd (str_nat (n div 10)) \<noteq> CHR ''0''" by simp
    with False show ?thesis
      by (subst str_nat.simps) (simp add: str_nat_nonempty)
  qed
qed

lemma py_format_02_hd:
  assumes "100 \<le> n"
  shows "hd (py_format_02 n) \<noteq> CHR ''0''"
proof -
  from assms have "10 \<le> nat n" by simp
  then have "2 \<le> length (str_nat (nat n))" by (rule str_nat_length_ge10)
  moreover from assms have "hd (str_nat (nat n)) \<noteq> CHR ''0''" by (intro str_nat_hd) simp
  ultimately show ?thesis using assms by (simp add: py_format_02_nonneg)
qed

text \<open>
  Claim C4. For every non-negative number of seconds, \<open>format_time\<close> yields a minutes field,
  a colon and a seconds field of exactly two decimal digits. The minutes field holds the whole
  number of minutes, with no hour component, zero-padded to two digits: it has exactly two
  digits when the minutes are below 100 and no leading zero from 100 minutes on; 4503 seconds
  give \<open>75:03\<close>. Reading the string back returns the number of seconds whenever the minutes
  are below 100.
\<close>

theorem format_time_mm_ss:
  "0 \<le> s \<Longrightarrow>
     (\<exists>m ss. format_time s = m @ '':'' @ ss
        \<and> 2 \<le> length m \<and> length ss = 2
        \<and> (s div 60 < 100 \<longrightarrow> length m = 2)
        \<and> (100 \<le> s div 60 \<longrightarrow> hd m \<noteq> CHR ''0'')
        \<and> (\<forall>c \<in> set (m @ ss). is_digit c)
        \<and> parse_nat m = Some (nat (s div 60))
        \<and> parse_nat ss = Some (nat (s mod 60)))
     \<and> format_time 4503 = ''75:03''
     \<and> (s div 60 < 100 \<longrightarrow> parse_time (format_time s) = Some s)"
proof -
  assume s: "0 \<le> s"
  let ?m = "py_format_02 (s div 60)" and ?ss = "py_format_02 (s mod 60)"
  from s have mins: "0 \<le> s div 60" and secs: "0 \<le> s mod 60" "s mod 60 < 100"
    by simp_all
  have fmt: "format_time s = ?m @ '':'' @ ?ss"
    by (simp add: format_time_def)
  have pm: "parse_nat ?m = Some (nat (s div 60))"
    using mins by (rule py_format_02_parse)
  have ps: "parse_nat ?ss = Some (nat (s mod 60))"
    using secs(1) by (rule py_format_02_parse)
  have dig: "\<forall>c \<in> set (?m @ ?ss). is_digit c"
    using py_format_02_digits [OF mins] py_format_02_digits [OF secs(1)] by auto
  have w2: "s div 60 < 100 \<longrightarrow> length ?m = 2"
    using py_format_02_length_lt100 [OF mins] by blast
  have nz: "100 \<le> s div 60 \<longrightarrow> hd ?m \<noteq> CHR ''0''"
    using py_format_02_hd by blast
  have shape: "\<exists>m ss. format_time s = m @ '':'' @ ss
        \<and> 2 \<le> length m \<and> length ss = 2
        \<and> (s div 60 < 100 \<longrightarrow> length m = 2)
        \<and> (100 \<le> s div 60 \<longrightarrow> hd m \<noteq> CHR ''0'')
        \<and> (\<forall>c \<in> set (m @ ss). is_digit c)
        \<and> parse_nat m = Some (nat (s div 60))
        \<and> parse_nat ss = Some (nat (s mod 60))"
    using fmt pm ps dig w2 nz py_format_02_length_ge [OF mins]
      py_format_02_length_lt100 [OF secs]
    by blast
  have "parse_time (format_time s) = Some (int (60 * nat (s div 60) + nat (s mod 60)))"
    unfolding fmt using py_format_02_no_colon [OF mins] pm ps by (rule parse_time_join)
  also have "int (60 * nat (s div 60) + nat (s mod 60)) = s"
  proof -
    have "int (60 * nat (s div 60) + nat (s mod 60)) = 60 * (s div 60) + s mod 60"
      using mins secs(1) by simp
    then show ?thesis by simp
  qed
  finally have "parse_time (format_time s) = Some s" .
  with shape format_time_4503 show ?thesis by simp
qed

theorem format_time_mm_ss_witness:
  "(0::int) \<le> 4503 \<and> (4503::int) div 60 < 100
     \<and> format_time 4503 = ''75:03''
     \<and> parse_time (format_time 4503) = Some 4503
     \<and> (0::int) \<le> 6000 \<and> (100::int) \<le> 6000 div 60
     \<and> (\<exists>m ss. format_time 6000 = m @ '':'' @ ss \<and> hd m \<noteq> CHR ''0'' \<and> length ss = 2)"
proof -
  have h: "(0::int) \<le> 4503" by simp
  have d: "(4503::int) div 60 < 100" by simp
  from format_time_mm_ss [OF h] have a: "format_time 4503 = ''75:03''"
    and b: "4503 div 60 < (100::int) \<longrightarrow> parse_time (format_time 4503) = Some 4503"
    by blast+
  from b d have c: "parse_time (format_time 4503) = Some 4503" by blast
  have h': "(0::int) \<le> 6000" by simp
  have d': "(100::int) \<le> 6000 div 60" by simp
  from format_time_mm_ss [OF h'] d'
  have e: "\<exists>m ss. format_time 6000 = m @ '':'' @ ss \<and> hd m \<noteq> CHR ''0'' \<and> length ss = 2"
    by blast
  from h d a c h' d' e show ?thesis by blast
qed

section \<open>Properties of the playback speed\<close>

lemma speed_inv_speeds: "speeds st' = speeds st \<Longrightarrow> speed_inv st \<Longrightarrow> speed_inv st'"
  unfolding speeds_def speed_inv_def by (elim conjE Pair_inject) metis

lemma speeds_set_speed [simp]: "speeds (set_speed r st) = speeds st"
  by (simp add: speeds_def set_speed_def)

lemma speeds_play [simp]: "speeds (play st) = speeds st"
  by (simp add: speeds_def play_def Let_def)

lemma speeds_pause [simp]: "speeds (pause st) = speeds st"
  by (simp add: speeds_def pause_def Let_def)

lemma speeds_reset_player [simp]: "speeds (reset_player st) = speeds st"
  by (simp add: speeds_def reset_player_def Let_def)

lemma speeds_stop [simp]: "speeds (stop st) = speeds st"
  by (simp add: speeds_def stop_def reset_player_def Let_def)

lemma speeds_skip_forward [simp]: "speeds (skip_forward now s st) = speeds st"
  by (simp add: speeds_def skip_forward_def)

lemma speeds_skip_backwards [simp]: "speeds (skip_backwards now s st) = speeds st"
  by (simp add: speeds_def skip_backwards_def)

lemma speeds_seek [simp]: "speeds (seek s st) = speeds st"
  by (simp add: speeds_def seek_def play_def pause_def Let_def)

lemma speeds_upd [simp]:
  "speeds (st\<lparr>track_current_time := a\<rparr>) = speeds st"
  "speeds (st\<lparr>track_bar := b\<rparr>) = speeds st"
  "speeds (st\<lparr>track_current_time_label := c\<rparr>) = speeds st"
  "speeds (st\<lparr>track_name := d\<rparr>) = speeds st"
  "speeds (st\<lparr>track := e\<rparr>) = speeds st"
  "speeds (st\<lparr>player := f\<rparr>) = speeds st"
  "speeds (st\<lparr>track_title := g\<rparr>) = speeds st"
  "speeds (st\<lparr>track_total_time := h\<rparr>) = speeds st"
  "speeds (st\<lparr>track_total_time_label := i\<rparr>) = speeds st"
  "speeds (st\<lparr>track_timer := j\<rparr>) = speeds st"
  by (simp_all add: speeds_def)

lemma speeds_refresh [simp]: "speeds (state_of (refresh now st)) = speeds st"
  by (simp add: refresh_def Let_def split: sum.splits)

lemma speeds_update_player [simp]: "speeds (state_of (update_player now st)) = speeds st"
  by (simp add: update_player_def)

lemma speeds_track_bar_clicked [simp]: "speeds (state_of (track_bar_clicked x w st)) = speeds st"
  by (simp add: track_bar_clicked_def Let_def split: sum.splits)

lemma speeds_load_audio [simp]:
  "speeds (state_of (load_audio fs duration file_path file file_name st)) = speeds st"
  by (simp add: load_audio_def Let_def split: sum.splits option.splits prod.splits)

lemma switch_speed_loop_not_found:
  "track_speed st \<notin> set xs \<Longrightarrow> switch_speed_loop i xs st = st"
  by (induction xs arbitrary: i) auto

lemma track_speed_list_switch_speed_loop:
  "track_speed_list (switch_speed_loop i xs st) = track_speed_list st"
  by (induction xs arbitrary: i) (auto simp: set_speed_def Let_def)

lemma switch_speed_step:
  assumes "track_speed_list st = [1 / 2, 1, 3 / 2, 2]"
  shows "track_speed st = 1 / 2 \<Longrightarrow> switch_speed st = set_speed 1 (st\<lparr>track_speed := 1\<rparr>)"
    and "track_speed st = 1 \<Longrightarrow> switch_speed st = set_speed (3 / 2) (st\<lparr>track_speed := 3 / 2\<rparr>)"
    and "track_speed st = 3 / 2 \<Longrightarrow> switch_speed st = set_speed 2 (st\<lparr>track_speed := 2\<rparr>)"
    and "track_speed st = 2 \<Longrightarrow> switch_speed st = set_speed (1 / 2) (st\<lparr>track_speed := 1 / 2\<rparr>)"
  using assms by (simp_all add: switch_speed_def Let_def)

lemma switch_speed_next:
  assumes "speed_inv st"
  shows "track_speed (switch_speed st) =
           (if track_speed st = 1 / 2 then 1 else if track_speed st = 1 then 3 / 2
            else if track_speed st = 3 / 2 then 2 else 1 / 2)"
    and "p_rate (player (switch_speed st)) = track_speed (switch_speed st)"
    and "speed_inv (switch_speed st)"
proof -
  from assms have l: "track_speed_list st = [1 / 2, 1, 3 / 2, 2]"
    and "track_speed st = 1 / 2 \<or> track_speed st = 1 \<or> track_speed st = 3 / 2 \<or> track_speed st = 2"
    by (auto simp: speed_inv_def)
  then consider "track_speed st = 1 / 2" | "track_speed st = 1" | "track_speed st = 3 / 2"
    | "track_speed st = 2" by blast
  then have "track_speed (switch_speed st) =
           (if track_speed st = 1 / 2 then 1 else if track_speed st = 1 then 3 / 2
            else if track_speed st = 3 / 2 then 2 else 1 / 2)
      \<and> p_rate (player (switch_speed st)) = track_speed (switch_speed st)
      \<and> speed_inv (switch_speed st)"
    by cases (simp_all add: switch_speed_step [OF l] set_speed_def vlc_set_rate_def speed_inv_def l)
  then show "track_speed (switch_speed st) =
           (if track_speed st = 1 / 2 then 1 else if track_speed st = 1 then 3 / 2
            else if track_speed st = 3 / 2 then 2 else 1 / 2)"
    and "p_rate (player (switch_speed st)) = track_speed (switch_speed st)"
    and "speed_inv (switch_speed st)" by blast+
qed

lemma switch_speed_four:
  assumes "speed_inv st"
  shows "track_speed (switch_speed (switch_speed (switch_speed (switch_speed st)))) = track_speed st"
proof -
  let ?a = "switch_speed st"
  let ?b = "switch_speed ?a"
  let ?c = "switch_speed ?b"
  have ia: "speed_inv ?a" using assms by (rule switch_speed_next(3))
  have ib: "speed_inv ?b" using ia by (rule switch_speed_next(3))
  have ic: "speed_inv ?c" using ib by (rule switch_speed_next(3))
  from assms have "track_speed st = 1 / 2 \<or> track_speed st = 1 \<or> track_speed st = 3 / 2 \<or> track_speed st = 2"
    by (auto simp: speed_inv_def)
  then show ?thesis
    by (auto simp: switch_speed_next(1) [OF assms] switch_speed_next(1) [OF ia]
        switch_speed_next(1) [OF ib] switch_speed_next(1) [OF ic])
qed

text \<open>
  Claim C5. With the speed list \<open>[0.5, 1, 1.5, 2]\<close> and a speed of that list,
  \<open>switch_speed\<close> moves the speed to the next entry and from the last entry back to the
  first, hands the new speed to the decoder and keeps the list; four applications return
  the speed to its original value.
\<close>

theorem switch_speed_cycle:
  "track_speed_list st = [1 / 2, 1, 3 / 2, 2] \<Longrightarrow> track_speed st \<in> set (track_speed_list st) \<Longrightarrow>
     track_speed (switch_speed st) =
       (if track_speed st = 1 / 2 then 1 else if track_speed st = 1 then 3 / 2
        else if track_speed st = 3 / 2 then 2 else 1 / 2)
     \<and> p_rate (player (switch_speed st)) = track_speed (switch_speed st)
     \<and> track_speed_list (switch_speed st) = track_speed_list st
     \<and> track_speed ((switch_speed ^^ 4) st) = track_speed st"
proof -
  assume "track_speed_list st = [1 / 2, 1, 3 / 2, 2]" "track_speed st \<in> set (track_speed_list st)"
  then have inv: "speed_inv st" by (simp add: speed_inv_def)
  have "(switch_speed ^^ 4) st = switch_speed (switch_speed (switch_speed (switch_speed st)))"
    by (simp add: eval_nat_numeral)
  with switch_speed_next(1,2) [OF inv] switch_speed_four [OF inv]
  show ?thesis
    by (simp add: switch_speed_def track_speed_list_switch_speed_loop)
qed

theorem switch_speed_cycle_witness:
  "track_speed_list MediaPlayer_init = [1 / 2, 1, 3 / 2, 2]
     \<and> track_speed MediaPlayer_init \<in> set (track_speed_list MediaPlayer_init)
     \<and> track_speed (switch_speed MediaPlayer_init) = 3 / 2
     \<and> track_speed ((switch_speed ^^ 4) MediaPlayer_init) = 1"
proof -
  have l: "track_speed_list MediaPlayer_init = [1 / 2, 1, 3 / 2, 2]"
    and m: "track_speed MediaPlayer_init \<in> set (track_speed_list MediaPlayer_init)"
    and s: "track_speed MediaPlayer_init = 1"
    by (simp_all add: MediaPlayer_init_def)
  from switch_speed_cycle [OF l m] s l m show ?thesis by simp
qed

lemma exec_speed_inv: "speed_inv st \<Longrightarrow> speed_inv (state_of (exec fs duration c st))"
proof -
  assume inv: "speed_inv st"
  show ?thesis
  proof (cases "c = Switch_speed")
    case True
    with inv show ?thesis by (simp add: switch_speed_next(3))
  next
    case False
    then have "speeds (state_of (exec fs duration c st)) = speeds st"
      by (cases c) simp_all
    then show ?thesis using inv by (rule speed_inv_speeds)
  qed
qed

lemma run_speed_inv: "speed_inv st \<Longrightarrow> speed_inv (state_of (run fs duration cs st))"
proof (induction cs arbitrary: st)
  case Nil
  then show ?case by simp
next
  case (Cons c cs)
  show ?case
  proof (cases "exec fs duration c st")
    case (Inl a)
    obtain e st' where a: "a = (e, st')" by (cases a)
    from exec_speed_inv [OF Cons.prems, of fs duration c] Inl a show ?thesis by simp
  next
    case (Inr st')
    from exec_speed_inv [OF Cons.prems, of fs duration c] Inr have "speed_inv st'" by simp
    then have "speed_inv (state_of (run fs duration cs st'))" by (rule Cons.IH)
    with Inr show ?thesis by simp
  qed
qed

lemma speed_inv_init: "speed_inv MediaPlayer_init"
  by (simp add: speed_inv_def MediaPlayer_init_def)

text \<open>
  Claim C9. The speed starts as \<open>1\<close>, an entry of the list \<open>[0.5, 1, 1.5, 2]\<close>.
  \<open>switch_speed\<close> leaves a speed that is not in the list unchanged. Every call keeps the
  speed inside the list, whether it returns or raises, and so does every sequence of calls
  from the initial state.
\<close>

theorem track_speed_invariant:
  "track_speed MediaPlayer_init = 1
     \<and> speed_inv MediaPlayer_init
     \<and> (track_speed st \<notin> set (track_speed_list st) \<longrightarrow> switch_speed st = st)
     \<and> (speed_inv st' \<longrightarrow> speed_inv (state_of (exec fs duration c st')))
     \<and> speed_inv (state_of (run fs duration cs MediaPlayer_init))"
  using speed_inv_init run_speed_inv [OF speed_inv_init] exec_speed_inv
    switch_speed_loop_not_found [of st "track_speed_list st" 0]
  by (simp add: switch_speed_def MediaPlayer_init_def)

theorem track_speed_invariant_witness:
  "track_speed (MediaPlayer_init\<lparr>track_speed := 3\<rparr>) \<notin> set (track_speed_list (MediaPlayer_init\<lparr>track_speed := 3\<rparr>))
     \<and> switch_speed (MediaPlayer_init\<lparr>track_speed := 3\<rparr>) = MediaPlayer_init\<lparr>track_speed := 3\<rparr>
     \<and> speed_inv MediaPlayer_init
     \<and> speed_inv (state_of (exec sample_fs sample_duration Switch_speed MediaPlayer_init))
     \<and> speed_inv (state_of (run sample_fs sample_duration [Switch_speed, Set_speed 3, Play] MediaPlayer_init))"
proof -
  let ?st = "MediaPlayer_init\<lparr>track_speed := 3\<rparr>"
  have n: "track_speed ?st \<notin> set (track_speed_list ?st)"
    by (simp add: MediaPlayer_init_def)
  from track_speed_invariant [where st = ?st and st' = MediaPlayer_init and fs = sample_fs
      and duration = sample_duration and c = Switch_speed
      and cs = "[Switch_speed, Set_speed 3, Play]"] n
  show ?thesis by blast
qed

section \<open>Properties of \<open>load_audio\<close>\<close>

text \<open>
  Claim C10. \<open>load_audio\<close> called with neither \<open>file_path\<close> nor \<open>file\<close> (both \<open>None\<close>,
  or both empty) raises \<open>UnboundLocalError\<close>, whatever the file system is, after it has
  assigned the track name; the call with the default arguments on the initial state is such a
  run of the public interface.
\<close>

theorem load_audio_unbound_local:
  "load_audio fs duration None None file_name st
       = Inl (UnboundLocalError, st\<lparr>track_name := Some file_name\<rparr>)
     \<and> load_audio fs duration (Some []) (Some []) file_name st
       = Inl (UnboundLocalError, st\<lparr>track_name := Some file_name\<rparr>)
     \<and> run fs duration [Load_audio None None ''DEFAULT''] MediaPlayer_init
       = Inl (UnboundLocalError, MediaPlayer_init\<lparr>track_name := Some ''DEFAULT''\<rparr>)"
  by (simp add: load_audio_def)

section \<open>Properties of seeking\<close>

lemma seek_player:
  "p_set_time (player (seek s st)) = Some (s * 1000)"
  "track_total_time (seek s st) = track_total_time st"
  by (simp_all add: seek_def play_def pause_def vlc_play_def vlc_pause_def vlc_set_time_def Let_def)

text \<open>
  Claim C1, as stated, fails: on the ten-second sample track, \<open>seek 11\<close> hands the decoder
  the position 11000 ms, \<open>seek (-1)\<close> a negative one, and a forward skip of five seconds from
  9000 ms the position 14000 ms.
\<close>

theorem seek_target_unclamped:
  "track_total_time sample_loaded = 10
     \<and> p_set_time (player (seek 11 sample_loaded)) = Some 11000
     \<and> \<not> target_in_track (seek 11 sample_loaded)
     \<and> \<not> target_in_track (seek (- 1) sample_loaded)
     \<and> p_set_time (player (skip_forward 9000 5 sample_loaded)) = Some 14000
     \<and> \<not> target_in_track (skip_forward 9000 5 sample_loaded)"
  by (simp add: target_in_track_def seek_player skip_forward_def vlc_set_time_def)
     (simp add: sample_loaded_def MediaPlayer_init_def)

text \<open>
  Claim C1, amended. \<open>seek\<close> hands the decoder \<open>seconds * 1000\<close> and \<open>skip_forward\<close> the
  position read plus \<open>seconds * 1000\<close>, both as they are: the target lies within the track
  exactly when the argument puts it there. \<open>skip_backwards\<close> hands it
  \<open>max 0 (position - seconds * 1000)\<close>, which is never below 0.
\<close>

theorem seek_skip_targets:
  "p_set_time (player (seek s st)) = Some (s * 1000)
     \<and> p_set_time (player (skip_forward now s st)) = Some (now + s * 1000)
     \<and> p_set_time (player (skip_backwards now s st)) = Some (max 0 (now - s * 1000))
     \<and> (target_in_track (seek s st) \<longleftrightarrow> 0 \<le> s \<and> s \<le> track_total_time st)
     \<and> (target_in_track (skip_forward now s st)
          \<longleftrightarrow> 0 \<le> now + s * 1000 \<and> now + s * 1000 \<le> track_total_time st * 1000)
     \<and> (target_in_track (skip_backwards now s st)
          \<longleftrightarrow> now - s * 1000 \<le> track_total_time st * 1000 \<and> 0 \<le> track_total_time st)
     \<and> (\<exists>t. p_set_time (player (skip_backwards now s st)) = Some t \<and> 0 \<le> t)"
  by (auto simp: target_in_track_def seek_player skip_forward_def skip_backwards_def
      vlc_set_time_def)

theorem seek_skip_targets_witness:
  "target_in_track (seek 4 sample_loaded)
     \<and> target_in_track (skip_forward 2000 3 sample_loaded)
     \<and> target_in_track (skip_backwards 2000 3 sample_loaded)
     \<and> p_set_time (player (skip_backwards 2000 3 sample_loaded)) = Some 0"
  using seek_skip_targets [where s = 4 and st = sample_loaded and now = 2000]
    seek_skip_targets [where s = 3 and st = sample_loaded and now = 2000]
  by (simp add: sample_loaded_def MediaPlayer_init_def)

section \<open>Properties of \<open>save_audio\<close>\<close>




section \<open>Properties of the double-precision model\<close>

lemma pow2_powi: "pow2 k = 2 powi k"
  by (simp add: pow2_def power_int_def power_inverse [symmetric] inverse_eq_divide power_one_over)

lemma pow2_pos [simp]: "0 < pow2 k"
  by (simp add: pow2_powi)

lemma pow2_mono: "a \<le> b \<Longrightarrow> pow2 a \<le> pow2 b"
  by (simp add: pow2_powi power_int_increasing)

lemma pow2_strict_mono: "a < b \<Longrightarrow> pow2 a < pow2 b"
  by (simp add: pow2_powi power_int_strict_increasing)

lemma pow2_less_cancel: "pow2 a < pow2 b \<Longrightarrow> a < b"
  using pow2_mono [of b a] by (cases "a < b") auto

lemma pow2_add: "pow2 (a + b) = pow2 a * pow2 b"
  by (simp add: pow2_powi power_int_add)

lemma pow2_nat: "0 \<le> k \<Longrightarrow> pow2 k = 2 ^ nat k"
  by (simp add: pow2_def)

lemma pow2_0 [simp]: "pow2 0 = 1"
  by (simp add: pow2_def)

lemma pow2_nonpos_inverse: "k \<le> 0 \<Longrightarrow> of_int (2 ^ nat (- k)) * pow2 k = 1"
proof -
  assume "k \<le> 0"
  then have "pow2 (- k) = 2 ^ nat (- k)" by (simp add: pow2_nat)
  moreover have "pow2 (- k) * pow2 k = 1"
    using pow2_add [of "- k" k] by simp
  ultimately show ?thesis by simp
qed

lemma round_half_even_error: "\<bar>of_int (round_half_even r) - r\<bar> \<le> 1 / 2"
proof -
  have "of_int \<lfloor>r\<rfloor> \<le> r" "r < of_int \<lfloor>r\<rfloor> + 1" by linarith+
  then show ?thesis
    by (auto simp: round_half_even_def Let_def)
qed

lemma round_half_even_ge: "of_int m \<le> r \<Longrightarrow> m \<le> round_half_even r"
proof -
  assume "of_int m \<le> r"
  then have "m \<le> \<lfloor>r\<rfloor>" by (simp add: le_floor_iff)
  then show ?thesis by (auto simp: round_half_even_def Let_def)
qed

lemma round_half_even_le: "r \<le> of_int n \<Longrightarrow> round_half_even r \<le> n"
proof -
  assume r: "r \<le> of_int n"
  then have f: "\<lfloor>r\<rfloor> \<le> n" by (metis floor_mono floor_of_int)
  show ?thesis
  proof (cases "r = of_int \<lfloor>r\<rfloor>")
    case True
    then have "r - of_int \<lfloor>r\<rfloor> < 1 / 2" by simp
    with f show ?thesis by (simp add: round_half_even_def Let_def)
  next
    case False
    then have "of_int \<lfloor>r\<rfloor> < r" using of_int_floor_le [of r] by linarith
    with r have "(of_int \<lfloor>r\<rfloor> :: rat) < of_int n" by linarith
    then have "\<lfloor>r\<rfloor> < n" by simp
    then show ?thesis by (auto simp: round_half_even_def Let_def)
  qed
qed

lemma round_half_even_unique: "\<bar>r - of_int m\<bar> < 1 / 2 \<Longrightarrow> round_half_even r = m"
proof -
  assume a: "\<bar>r - of_int m\<bar> < 1 / 2"
  let ?k = "round_half_even r"
  from round_half_even_error [of r] a have "\<bar>(of_int ?k :: rat) - of_int m\<bar> < 1" by linarith
  then have "\<bar>(of_int (?k - m) :: rat)\<bar> < 1" by simp
  then have "\<bar>?k - m\<bar> < 1" by (metis of_int_abs of_int_less_1_iff)
  then show ?thesis by linarith
qed

lemma ilog2_bounds:
  assumes "0 < x"
  shows "pow2 (ilog2 x) \<le> x" and "x < pow2 (ilog2 x + 1)"
proof -
  obtain p q where pq: "quotient_of x = (p, q)" by (cases "quotient_of x")
  then have q: "0 < q" by (rule quotient_of_denom_pos)
  from pq have x: "x = of_int p / of_int q" by (rule quotient_of_div)
  with assms q have p: "0 < p" by (simp add: zero_less_divide_iff)
  let ?bp = "bitlen p" and ?bq = "bitlen q"
  from p have bp1: "1 \<le> ?bp" by (simp add: bitlen_alt_def)
  from q have bq1: "1 \<le> ?bq" by (simp add: bitlen_alt_def)
  have plo: "pow2 (?bp - 1) \<le> of_int p" and phi: "of_int p < pow2 ?bp"
    and qlo: "pow2 (?bq - 1) \<le> of_int q" and qhi: "of_int q < pow2 ?bq"
  proof -
    from bitlen_bounds [OF p] have "2 ^ nat (?bp - 1) \<le> p" "p < 2 ^ nat ?bp" by blast+
    then have "(of_int (2 ^ nat (?bp - 1)) :: rat) \<le> of_int p" "(of_int p :: rat) < of_int (2 ^ nat ?bp)"
      by (simp_all only: of_int_le_iff of_int_less_iff)
    with bp1 show "pow2 (?bp - 1) \<le> of_int p" "of_int p < pow2 ?bp"
      by (simp_all add: pow2_nat)
    from bitlen_bounds [OF q] have "2 ^ nat (?bq - 1) \<le> q" "q < 2 ^ nat ?bq" by blast+
    then have "(of_int (2 ^ nat (?bq - 1)) :: rat) \<le> of_int q" "(of_int q :: rat) < of_int (2 ^ nat ?bq)"
      by (simp_all only: of_int_le_iff of_int_less_iff)
    with bq1 show "pow2 (?bq - 1) \<le> of_int q" "of_int q < pow2 ?bq"
      by (simp_all add: pow2_nat)
  qed
  let ?e = "?bp - ?bq"
  have qpos: "(0::rat) < of_int q" using q by simp
  have hi: "x < pow2 (?e + 1)"
  proof -
    have "pow2 ?bp = pow2 (?e + 1) * pow2 (?bq - 1)"
      using pow2_add [of "?e + 1" "?bq - 1"] by simp
    also have "\<dots> \<le> pow2 (?e + 1) * of_int q"
      using qlo by (simp add: mult_left_mono less_imp_le)
    finally have "of_int p < pow2 (?e + 1) * of_int q" using phi by linarith
    then show ?thesis using qpos by (simp add: x pos_divide_less_eq)
  qed
  have lo: "pow2 (?e - 1) < x"
  proof -
    have "pow2 (?e - 1) * of_int q < pow2 (?e - 1) * pow2 ?bq"
      using qhi by (simp add: mult_strict_left_mono)
    also have "\<dots> = pow2 (?bp - 1)"
      using pow2_add [of "?e - 1" "?bq"] by simp
    finally have "pow2 (?e - 1) * of_int q < of_int p" using plo by linarith
    then show ?thesis using qpos by (simp add: x pos_less_divide_eq)
  qed
  have il: "ilog2 x = (if pow2 ?e \<le> x then ?e else ?e - 1)"
    by (simp add: ilog2_def pq Let_def)
  show "pow2 (ilog2 x) \<le> x"
    using lo by (simp add: il less_imp_le)
  show "x < pow2 (ilog2 x + 1)"
    using hi by (auto simp: il)
qed

lemma ilog2_unique:
  assumes "0 < x" "pow2 e \<le> x" "x < pow2 (e + 1)"
  shows "ilog2 x = e"
proof -
  from ilog2_bounds [OF assms(1)] assms(2,3)
  have a: "pow2 (ilog2 x) < pow2 (e + 1)" and b: "pow2 e < pow2 (ilog2 x + 1)" by linarith+
  from a have "ilog2 x < e + 1" by (rule pow2_less_cancel)
  moreover from b have "e < ilog2 x + 1" by (rule pow2_less_cancel)
  ultimately show ?thesis by linarith
qed

lemma ilog2_le:
  assumes "0 < x" "x < pow2 (n + 1)"
  shows "ilog2 x \<le> n"
proof -
  from ilog2_bounds(1) [OF assms(1)] assms(2) have "pow2 (ilog2 x) < pow2 (n + 1)" by linarith
  then have "ilog2 x < n + 1" by (rule pow2_less_cancel)
  then show ?thesis by linarith
qed

lemma pow2_half: "pow2 (k - 1) = pow2 k / 2"
proof -
  have "pow2 (- 1) = 1 / 2" by (simp add: pow2_def)
  with pow2_add [of k "- 1"] show ?thesis by simp
qed

lemma scaled_round:
  assumes "0 < u" "0 \<le> x" "x \<le> of_int M * u"
  shows "0 \<le> of_int (round_half_even (x / u)) * u"
    and "of_int (round_half_even (x / u)) * u \<le> of_int M * u"
    and "\<bar>of_int (round_half_even (x / u)) * u - x\<bar> \<le> u / 2"
proof -
  let ?m = "round_half_even (x / u)"
  have "of_int 0 \<le> x / u" using assms(1,2) by simp
  then have "0 \<le> ?m" by (rule round_half_even_ge)
  then show "0 \<le> of_int ?m * u" using assms(1) by simp
  have "x / u \<le> of_int M" using assms(1,3) by (simp add: pos_divide_le_eq)
  then have "?m \<le> M" by (rule round_half_even_le)
  then have "(of_int ?m :: rat) \<le> of_int M" by (simp only: of_int_le_iff)
  then show "of_int ?m * u \<le> of_int M * u"
    using assms(1) by (simp add: mult_right_mono)
  have "of_int ?m * u - x = (of_int ?m - x / u) * u"
    using assms(1) by (simp add: left_diff_distrib)
  then have "\<bar>of_int ?m * u - x\<bar> = \<bar>of_int ?m - x / u\<bar> * u"
    using assms(1) by (simp add: abs_mult)
  also have "\<dots> \<le> 1 / 2 * u"
    using round_half_even_error [of "x / u"] assms(1) by (intro mult_right_mono) simp_all
  finally show "\<bar>of_int ?m * u - x\<bar> \<le> u / 2" by simp
qed

lemma b64_round_bounded:
  assumes "0 < x" "x \<le> of_int N" "x < pow2 (n + 1)" "n \<le> 52" "of_int N < pow2 1024"
  shows "\<exists>y. b64_round x = Some y \<and> 0 \<le> y \<and> y \<le> of_int N
           \<and> \<bar>y - x\<bar> \<le> pow2 (max n (- 1022) - 53)"
proof -
  define k where "k = max (ilog2 \<bar>x\<bar>) (- 1022) - 52"
  define u where "u = pow2 k"
  define y where "y = of_int (round_half_even (x / u)) * u"
  from assms(1) have ax: "\<bar>x\<bar> = x" by simp
  have il: "ilog2 x \<le> n" using assms(1,3) by (rule ilog2_le)
  have k0: "k \<le> 0" and kn: "k - 1 \<le> max n (- 1022) - 53"
    using il assms(4) unfolding k_def ax by linarith+
  have u: "0 < u" by (simp add: u_def)
  define M where "M = N * 2 ^ nat (- k)"
  have "of_int M * u = of_int N * (of_int (2 ^ nat (- k)) * pow2 k)"
    by (simp add: M_def u_def)
  also have "\<dots> = of_int N"
    by (simp only: pow2_nonpos_inverse [OF k0] mult_1_right)
  finally have NM: "of_int M * u = of_int N" .
  have x0: "0 \<le> x" and xM: "x \<le> of_int M * u"
    using assms(1,2) by (simp_all add: NM)
  note sr = scaled_round [OF u x0 xM, folded y_def]
  have "\<bar>y - x\<bar> \<le> u / 2" by (rule sr(3))
  also have "u / 2 = pow2 (k - 1)" by (simp add: u_def pow2_half)
  also have "\<dots> \<le> pow2 (max n (- 1022) - 53)" using kn by (rule pow2_mono)
  finally have err: "\<bar>y - x\<bar> \<le> pow2 (max n (- 1022) - 53)" .
  have y0: "0 \<le> y" by (rule sr(1))
  have yN: "y \<le> of_int N" using sr(2) by (simp only: NM)
  from y0 yN assms(5) have no: "\<not> pow2 1024 \<le> \<bar>y\<bar>" by linarith
  have "ulp x = u" by (simp only: ulp_def u_def k_def)
  then have "b64_round x = (if pow2 1024 \<le> \<bar>y\<bar> then None else Some y)"
    using assms(1) by (simp add: b64_round_def Let_def y_def)
  with no have "b64_round x = Some y" by simp
  with y0 yN err show ?thesis by blast
qed

lemma b64_round_eqI:
  assumes "0 < x" "pow2 e \<le> x" "x < pow2 (e + 1)" "- 1022 \<le> e"
    and "\<bar>x / pow2 (e - 52) - of_int m\<bar> < 1 / 2"
    and "0 \<le> m" "of_int m * pow2 (e - 52) < pow2 K" "K \<le> 1024"
  shows "b64_round x = Some (of_int m * pow2 (e - 52))"
proof -
  define y where "y = of_int m * pow2 (e - 52)"
  from assms(1) have ax: "\<bar>x\<bar> = x" by simp
  have il: "ilog2 x = e" using assms(1-3) by (rule ilog2_unique)
  have "max e (- 1022) = e" using assms(4) by simp
  then have u: "ulp x = pow2 (e - 52)" by (simp only: ulp_def ax il)
  have m: "round_half_even (x / pow2 (e - 52)) = m"
    using assms(5) by (rule round_half_even_unique)
  have "0 \<le> pow2 (e - 52)" using pow2_pos [of "e - 52"] by (rule less_imp_le)
  with assms(6) have y0: "0 \<le> y" by (simp add: y_def)
  have "pow2 K \<le> pow2 1024" using assms(8) by (rule pow2_mono)
  with assms(7) y0 have no: "\<not> pow2 1024 \<le> \<bar>y\<bar>" unfolding y_def by linarith
  have "b64_round x = (if pow2 1024 \<le> \<bar>y\<bar> then None else Some y)"
    using assms(1) by (simp add: b64_round_def Let_def u m y_def)
  with no show ?thesis by (simp add: y_def)
qed

lemma pow2_numeral:
  "pow2 (numeral k) = 2 ^ numeral k"
  "pow2 (- numeral k) = 1 / 2 ^ numeral k"
  "pow2 1 = 2"
  "pow2 (- 1) = 1 / 2"
  by (simp_all add: pow2_def)

lemma b64_round_100: "b64_round 100 = Some 100"
proof -
  have "b64_round 100 = Some (of_int (100 * 2 ^ 46) * pow2 (6 - 52))"
    by (rule b64_round_eqI [where K = 7]) (simp_all add: pow2_numeral)
  then show ?thesis by (simp add: pow2_numeral)
qed

lemma py_float_100: "py_float 100 = Inr 100"
  by (simp add: py_float_def b64_round_100)

lemma progress_valueI:
  assumes "total_time \<noteq> 0"
    and "b64_round (of_int current / of_int total_time) = Some q"
    and "b64_round (q * 100) = Some y" and "0 \<le> y"
  shows "progress_value current total_time = Inr \<lfloor>y\<rfloor>"
  using assms
  by (simp add: progress_value_def py_truediv_def py_mul_int_def py_float_100 py_int_def)

lemma b64_round_two_thirds:
  "b64_round (of_int 2 / of_int 3) = Some (6004799503160661 / 9007199254740992)"
proof -
  have "b64_round (2 / 3) = Some (of_int 6004799503160661 * pow2 (- 1 - 52))"
    by (rule b64_round_eqI [where K = 0]) (simp_all add: pow2_numeral)
  then show ?thesis by (simp add: pow2_numeral)
qed

lemma b64_round_two_thirds_100:
  "b64_round (6004799503160661 / 9007199254740992 * 100) = Some (2345624805922133 / 35184372088832)"
proof -
  have "b64_round (150119987579016525 / 2251799813685248)
      = Some (of_int 4691249611844266 * pow2 (6 - 52))"
    by (rule b64_round_eqI [where K = 7]) (simp_all add: pow2_numeral)
  then show ?thesis by (simp add: pow2_numeral)
qed

lemma progress_value_2_3: "progress_value 2 3 = Inr 66"
proof -
  have "progress_value 2 3 = Inr \<lfloor>2345624805922133 / 35184372088832 :: rat\<rfloor>"
    by (rule progress_valueI [OF _ b64_round_two_thirds b64_round_two_thirds_100]) simp_all
  moreover have "\<lfloor>2345624805922133 / 35184372088832 :: rat\<rfloor> = 66"
    by (simp add: floor_eq_iff)
  ultimately show ?thesis by (simp only:)
qed

lemma spec_progress_2_3: "spec_progress 2 3 = 67"
proof -
  have "round_half_even (of_int 2 / of_int 3 * 100) = 67"
    by (rule round_half_even_unique) simp
  then show ?thesis by (simp add: spec_progress_def)
qed

lemma b64_round_unit:
  assumes "0 \<le> x" "x \<le> 1"
  shows "\<exists>q. b64_round x = Some q \<and> 0 \<le> q \<and> q \<le> 1 \<and> \<bar>q - x\<bar> \<le> pow2 (- 53)"
proof (cases "x = 0")
  case True
  have "0 \<le> pow2 (- 53)" using pow2_pos [of "- 53"] by (rule less_imp_le)
  with True show ?thesis by (simp add: b64_round_def)
next
  case False
  with assms(1) have pos: "0 < x" by simp
  have le: "x \<le> of_int 1" using assms(2) by simp
  have lt: "x < pow2 (0 + 1)" using assms(2) by (simp add: pow2_numeral)
  have "pow2 0 < pow2 1024" by (rule pow2_strict_mono) simp
  then have big: "of_int 1 < pow2 1024" by simp
  from b64_round_bounded [OF pos le lt _ big] show ?thesis by simp
qed

lemma b64_round_percent:
  assumes "0 \<le> x" "x \<le> 100"
  shows "\<exists>y. b64_round x = Some y \<and> 0 \<le> y \<and> y \<le> 100 \<and> \<bar>y - x\<bar> \<le> pow2 (- 47)"
proof (cases "x = 0")
  case True
  have "0 \<le> pow2 (- 47)" using pow2_pos [of "- 47"] by (rule less_imp_le)
  with True show ?thesis by (simp add: b64_round_def)
next
  case False
  with assms(1) have pos: "0 < x" by simp
  have le: "x \<le> of_int 100" using assms(2) by simp
  have lt: "x < pow2 (6 + 1)" using assms(2) by (simp add: pow2_numeral)
  have "pow2 7 \<le> pow2 1024" by (rule pow2_mono) simp
  then have big: "of_int 100 < pow2 1024" by (simp add: pow2_numeral)
  from b64_round_bounded [OF pos le lt _ big] show ?thesis by simp
qed

lemma progress_value_range:
  assumes "0 < T" "0 \<le> c" "c \<le> T"
  shows "\<exists>v. progress_value c T = Inr v \<and> 0 \<le> v \<and> v \<le> 100
           \<and> v \<le> spec_progress c T \<and> spec_progress c T \<le> v + 1"
proof -
  define x0 :: rat where "x0 = of_int c / of_int T"
  define X :: rat where "X = x0 * 100"
  have x0: "0 \<le> x0" "x0 \<le> 1"
    using assms by (simp_all add: x0_def)
  from b64_round_unit [OF x0] obtain q where q: "b64_round x0 = Some q"
    and q0: "0 \<le> q" and q1: "q \<le> 1" and qe: "\<bar>q - x0\<bar> \<le> pow2 (- 53)" by blast
  have "0 \<le> q * 100" "q * 100 \<le> 100" using q0 q1 by simp_all
  from b64_round_percent [OF this] obtain y where y: "b64_round (q * 100) = Some y"
    and y0: "0 \<le> y" and y100: "y \<le> 100" and ye: "\<bar>y - q * 100\<bar> \<le> pow2 (- 47)" by blast
  have T0: "T \<noteq> 0" using assms(1) by simp
  have pv: "progress_value c T = Inr \<lfloor>y\<rfloor>"
    using T0 q [unfolded x0_def] y y0 by (rule progress_valueI)
  have small: "pow2 (- 47) + 100 * pow2 (- 53) < 1 / 2"
    by (simp add: pow2_numeral)
  have yX: "\<bar>y - X\<bar> < 1 / 2"
    using qe ye small unfolding X_def by linarith
  define r where "r = round_half_even X"
  have rX: "\<bar>of_int r - X\<bar> \<le> 1 / 2"
    unfolding r_def by (rule round_half_even_error)
  have X0: "of_int 0 \<le> X" and X100: "X \<le> of_int 100"
    using x0 by (simp_all add: X_def)
  have r0: "0 \<le> r" unfolding r_def using X0 by (rule round_half_even_ge)
  have r100: "r \<le> 100" unfolding r_def using X100 by (rule round_half_even_le)
  have sp: "spec_progress c T = r"
    using r0 r100 by (simp add: spec_progress_def r_def X_def x0_def)
  define v where "v = \<lfloor>y\<rfloor>"
  have vy: "of_int v \<le> y" "y < of_int v + 1"
    unfolding v_def by linarith+
  have v0: "0 \<le> v" unfolding v_def using y0 by simp
  have v100: "v \<le> 100" unfolding v_def using y100 by (simp add: floor_le_iff)
  have "(of_int v :: rat) - of_int r < 1" using vy yX rX by linarith
  then have "(of_int (v - r) :: rat) < of_int 1" by simp
  then have "v - r < 1" by (simp only: of_int_less_iff)
  then have vr: "v \<le> r" by simp
  have "(of_int r :: rat) - of_int v < 2" using vy yX rX by linarith
  then have "(of_int (r - v) :: rat) < of_int 2" by simp
  then have "r - v < 2" by (simp only: of_int_less_iff)
  then have rv: "r \<le> v + 1" by simp
  from pv v0 v100 vr rv show ?thesis by (simp add: sp v_def)
qed

section \<open>Evaluation on the samples\<close>

lemma str_nat_numeral:
  "str_nat (numeral k) =
     (if numeral k < (10::nat) then [digit_char (numeral k)]
      else str_nat (numeral k div 10) @ [digit_char (numeral k mod 10)])"
  by (rule str_nat.simps)

lemma str_nat_0: "str_nat 0 = ''0''"
  by (simp add: str_nat.simps [of 0] digit_char_def)

lemma str_nat_1: "str_nat (Suc 0) = ''1''"
  by (simp add: str_nat.simps [of "Suc 0"] digit_char_def)

lemmas format_time_eval =
  format_time_def py_format_02_def Let_def str_nat_numeral str_nat_0 str_nat_1 digit_char_def

lemma format_time_samples:
  "format_time 0 = ''00:00''" "format_time 2 = ''00:02''" "format_time 3 = ''00:03''"
  "format_time 5 = ''00:05''" "format_time 9 = ''00:09''" "format_time 10 = ''00:10''"
  "format_time (- 1) = ''-1:59''"
  by (simp_all add: format_time_eval)

lemma b64_round_half: "b64_round (of_int 5 / of_int 10) = Some (1 / 2)"
proof -
  have "b64_round (1 / 2) = Some (of_int (2 ^ 52) * pow2 (- 1 - 52))"
    by (rule b64_round_eqI [where K = 0]) (simp_all add: pow2_numeral)
  then show ?thesis by (simp add: pow2_numeral)
qed

lemma b64_round_half_100: "b64_round (1 / 2 * 100) = Some 50"
proof -
  have "b64_round 50 = Some (of_int (50 * 2 ^ 47) * pow2 (5 - 52))"
    by (rule b64_round_eqI [where K = 6]) (simp_all add: pow2_numeral)
  then show ?thesis by (simp add: pow2_numeral)
qed

lemma progress_value_5_10: "progress_value 5 10 = Inr 50"
proof -
  have "progress_value 5 10 = Inr \<lfloor>50 :: rat\<rfloor>"
    by (rule progress_valueI [OF _ b64_round_half b64_round_half_100]) simp_all
  then show ?thesis by simp
qed

lemma b64_round_nine_tenths:
  "b64_round (of_int 9 / of_int 10) = Some (8106479329266893 / 9007199254740992)"
proof -
  have "b64_round (9 / 10) = Some (of_int 8106479329266893 * pow2 (- 1 - 52))"
    by (rule b64_round_eqI [where K = 0]) (simp_all add: pow2_numeral)
  then show ?thesis by (simp add: pow2_numeral)
qed

lemma b64_round_nine_tenths_100:
  "b64_round (8106479329266893 / 9007199254740992 * 100) = Some 90"
proof -
  have "b64_round (202661983231672325 / 2251799813685248)
      = Some (of_int 6333186975989760 * pow2 (6 - 52))"
    by (rule b64_round_eqI [where K = 7]) (simp_all add: pow2_numeral)
  then show ?thesis by (simp add: pow2_numeral)
qed

lemma progress_value_9_10: "progress_value 9 10 = Inr 90"
proof -
  have "progress_value 9 10 = Inr \<lfloor>90 :: rat\<rfloor>"
    by (rule progress_valueI [OF _ b64_round_nine_tenths b64_round_nine_tenths_100]) simp_all
  then show ?thesis by simp
qed

lemma sample_loaded_reached:
  "run sample_fs sample_duration [Load_audio None (Some ''speech.mp3'') ''speech'']
     MediaPlayer_init = Inr sample_loaded"
  by (simp add: load_audio_def sample_loaded_def MediaPlayer_init_def sample_duration_def
      vlc_set_media_def vlc_MediaPlayer_def format_time_samples Let_def)

lemma sample_playing_reached:
  "run sample_fs sample_duration [Play, Update_player 5200] sample_loaded = Inr sample_playing"
  by (simp add: play_def update_player_def refresh_def sample_playing_def sample_loaded_def
      MediaPlayer_init_def vlc_play_def vlc_MediaPlayer_def progress_value_5_10 setValue_def
      format_time_samples Let_def)

lemma sample_short_reached:
  "run sample_fs sample_duration [Load_audio None (Some ''short.mp3'') ''short'']
     MediaPlayer_init = Inr sample_short"
  by (simp add: load_audio_def sample_short_def MediaPlayer_init_def sample_duration_def
      vlc_set_media_def vlc_MediaPlayer_def format_time_samples Let_def)

section \<open>Properties of the polling tick\<close>

lemma stop_fields:
  "track_current_time (stop st) = 0" "track_bar (stop st) = 0"
  "track_current_time_label (stop st) = ''00:00''" "\<not> track_timer (stop st)"
  "p_state (player (stop st)) = Stopped"
  "track_total_time (stop st) = track_total_time st"
  by (simp_all add: stop_def reset_player_def vlc_stop_def setValue_def format_time_samples Let_def)

lemma refresh_current_time:
  "track_current_time (state_of (refresh now st)) = now div 1000"
  by (simp add: refresh_def Let_def split: sum.splits)

lemma refresh_progress:
  assumes "progress_value (now div 1000) (track_total_time st) = Inr v" "0 \<le> v" "v \<le> 100"
  shows "refresh now st
           = Inr (st\<lparr>track_current_time := now div 1000, track_bar := v,
                      track_current_time_label := format_time (now div 1000)\<rparr>)"
  using assms by (simp add: refresh_def setValue_def Let_def)

text \<open>
  Claim C2, as stated, fails: with the stored position 5 on the ten-second sample and the
  decoder at 9000 ms, the position read is \<open>9 >= 10 - 1\<close>, for which the claim stops; the
  controller refreshes the display instead and the timer stays active.
\<close>

theorem update_player_decides_on_stored:
  "spec_update_player 9000 sample_playing = Inr (stop sample_playing)
     \<and> update_player 9000 sample_playing
         = Inr (sample_playing\<lparr>track_current_time := 9, track_bar := 90,
                               track_current_time_label := ''00:09''\<rparr>)
     \<and> track_timer (state_of (update_player 9000 sample_playing))
     \<and> update_player 9000 sample_playing \<noteq> spec_update_player 9000 sample_playing"
proof -
  have T: "track_total_time sample_playing = 10" and c: "track_current_time sample_playing = 5"
    and t: "track_timer sample_playing"
    by (simp_all add: sample_playing_def sample_loaded_def MediaPlayer_init_def)
  have s: "spec_update_player 9000 sample_playing = Inr (stop sample_playing)"
    by (simp add: spec_update_player_def T)
  have "progress_value (9000 div 1000) (track_total_time sample_playing) = Inr 90"
    by (simp add: T progress_value_9_10)
  from refresh_progress [OF this]
  have u: "update_player 9000 sample_playing
         = Inr (sample_playing\<lparr>track_current_time := 9, track_bar := 90,
                               track_current_time_label := ''00:09''\<rparr>)"
    by (simp add: update_player_def T c format_time_samples)
  have "track_current_time (state_of (update_player 9000 sample_playing)) = 9"
    by (simp add: u)
  moreover have "track_current_time (state_of (spec_update_player 9000 sample_playing)) = 0"
    by (simp add: s stop_fields)
  ultimately have "update_player 9000 sample_playing \<noteq> spec_update_player 9000 sample_playing"
    by auto
  with s u t show ?thesis by simp
qed

text \<open>
  Claim C2, amended. The tick decides on the stored position. A stored position of the total
  duration or more stops: position 0, bar 0, label \<open>00:00\<close>, timer off, decoder stopped. A
  stored position below the total duration reads the decoder and stores the position read,
  whatever it is; when that position lies between 0 and a positive total duration, the bar
  takes the progress value and the label the formatted position, and nothing else changes.
\<close>

theorem update_player_tick:
  "(track_total_time st \<le> track_current_time st \<longrightarrow>
       update_player now st = Inr (stop st)
       \<and> track_current_time (stop st) = 0 \<and> track_bar (stop st) = 0
       \<and> track_current_time_label (stop st) = ''00:00''
       \<and> \<not> track_timer (stop st) \<and> p_state (player (stop st)) = Stopped)
   \<and> (track_current_time st < track_total_time st \<longrightarrow>
       track_current_time (state_of (update_player now st)) = now div 1000
       \<and> (0 \<le> now div 1000 \<and> now div 1000 \<le> track_total_time st \<and> 0 < track_total_time st \<longrightarrow>
            (\<exists>v. progress_value (now div 1000) (track_total_time st) = Inr v
               \<and> update_player now st
                   = Inr (st\<lparr>track_current_time := now div 1000, track_bar := v,
                              track_current_time_label := format_time (now div 1000)\<rparr>))))"
proof (intro conjI impI)
  assume a: "track_total_time st \<le> track_current_time st"
  then show "update_player now st = Inr (stop st)" by (simp add: update_player_def)
next
  assume a: "track_current_time st < track_total_time st"
  then show "track_current_time (state_of (update_player now st)) = now div 1000"
    by (simp add: update_player_def refresh_current_time)
next
  assume a: "track_current_time st < track_total_time st"
    and b: "0 \<le> now div 1000 \<and> now div 1000 \<le> track_total_time st \<and> 0 < track_total_time st"
  from b progress_value_range [of "track_total_time st" "now div 1000"]
  obtain v where v: "progress_value (now div 1000) (track_total_time st) = Inr v"
    "0 \<le> v" "v \<le> 100" by blast
  from refresh_progress [OF v] a v(1)
  show "\<exists>v. progress_value (now div 1000) (track_total_time st) = Inr v
               \<and> update_player now st
                   = Inr (st\<lparr>track_current_time := now div 1000, track_bar := v,
                              track_current_time_label := format_time (now div 1000)\<rparr>)"
    by (simp add: update_player_def)
qed (simp_all add: stop_fields)

theorem update_player_tick_witness:
  "track_total_time (sample_loaded\<lparr>track_current_time := 10\<rparr>)
       \<le> track_current_time (sample_loaded\<lparr>track_current_time := 10\<rparr>)
     \<and> update_player 4000 (sample_loaded\<lparr>track_current_time := 10\<rparr>)
         = Inr (stop (sample_loaded\<lparr>track_current_time := 10\<rparr>))
     \<and> track_current_time sample_playing < track_total_time sample_playing
     \<and> (0::int) \<le> 9000 div 1000 \<and> 9000 div 1000 \<le> track_total_time sample_playing
     \<and> 0 < track_total_time sample_playing
     \<and> track_current_time (state_of (update_player 9000 sample_playing)) = 9
     \<and> (\<exists>v. update_player 9000 sample_playing
           = Inr (sample_playing\<lparr>track_current_time := 9, track_bar := v,
                                 track_current_time_label := format_time 9\<rparr>))"
proof -
  let ?s = "sample_loaded\<lparr>track_current_time := 10\<rparr>"
  have a: "track_total_time ?s \<le> track_current_time ?s"
    by (simp add: sample_loaded_def MediaPlayer_init_def)
  have b: "track_current_time sample_playing < track_total_time sample_playing"
    and c: "(0::int) \<le> 9000 div 1000 \<and> 9000 div 1000 \<le> track_total_time sample_playing
      \<and> 0 < track_total_time sample_playing"
    by (simp_all add: sample_playing_def sample_loaded_def MediaPlayer_init_def)
  from update_player_tick [of ?s 4000] a
  have 1: "update_player 4000 ?s = Inr (stop ?s)" by blast
  from update_player_tick [of sample_playing 9000] b c
  have 2: "track_current_time (state_of (update_player 9000 sample_playing)) = 9000 div 1000"
    and 3: "\<exists>v. progress_value (9000 div 1000) (track_total_time sample_playing) = Inr v
      \<and> update_player 9000 sample_playing
           = Inr (sample_playing\<lparr>track_current_time := 9000 div 1000, track_bar := v,
                                 track_current_time_label := format_time (9000 div 1000)\<rparr>)"
    by blast+
  from 3 have 4: "\<exists>v. update_player 9000 sample_playing
           = Inr (sample_playing\<lparr>track_current_time := 9, track_bar := v,
                                 track_current_time_label := format_time 9\<rparr>)"
    by auto
  from a 1 b c 2 4 show ?thesis by simp
qed

section \<open>Properties of the progress value\<close>

text \<open>
  Claim C3, as stated, fails: on a track of three seconds with the decoder at two seconds,
  the polling update shows 66, where \<open>round(2 / 3 * 100)\<close> is 67.
\<close>

theorem progress_truncates:
  "update_player 2000 sample_short
       = Inr (sample_short\<lparr>track_current_time := 2, track_bar := 66,
                           track_current_time_label := ''00:02''\<rparr>)
     \<and> spec_progress 2 3 = 67
     \<and> track_bar (state_of (update_player 2000 sample_short))
         \<noteq> spec_progress (track_current_time (state_of (update_player 2000 sample_short)))
              (track_total_time (state_of (update_player 2000 sample_short)))"
proof -
  have T: "track_total_time sample_short = 3" and c: "track_current_time sample_short = 0"
    by (simp_all add: sample_short_def MediaPlayer_init_def)
  have "progress_value (2000 div 1000) (track_total_time sample_short) = Inr 66"
    by (simp add: T progress_value_2_3)
  from refresh_progress [OF this]
  have u: "update_player 2000 sample_short
       = Inr (sample_short\<lparr>track_current_time := 2, track_bar := 66,
                           track_current_time_label := ''00:02''\<rparr>)"
    by (simp add: update_player_def T c format_time_samples)
  show ?thesis by (simp add: u spec_progress_2_3 T)
qed

text \<open>
  Claim C3, amended. For a total duration \<open>T > 0\<close> and a position \<open>c\<close> read from the decoder
  with \<open>0 <= c <= T\<close>, a polling update that refreshes the display (stored position below
  \<open>T\<close>) shows \<open>int(c / T * 100)\<close>, the double-precision product truncated: a value between 0
  and 100 that is \<open>round(c / T * 100)\<close> or one less.
\<close>

theorem progress_bar_value:
  "0 < track_total_time st \<Longrightarrow> track_current_time st < track_total_time st \<Longrightarrow>
   0 \<le> now div 1000 \<Longrightarrow> now div 1000 \<le> track_total_time st \<Longrightarrow>
     \<exists>st'. update_player now st = Inr st'
        \<and> track_current_time st' = now div 1000
        \<and> track_total_time st' = track_total_time st
        \<and> progress_value (track_current_time st') (track_total_time st') = Inr (track_bar st')
        \<and> 0 \<le> track_bar st' \<and> track_bar st' \<le> 100
        \<and> track_bar st' \<le> spec_progress (track_current_time st') (track_total_time st')
        \<and> spec_progress (track_current_time st') (track_total_time st') \<le> track_bar st' + 1"
proof -
  assume a: "0 < track_total_time st" "track_current_time st < track_total_time st"
    "0 \<le> now div 1000" "now div 1000 \<le> track_total_time st"
  from progress_value_range [OF a(1,3,4)]
  obtain v where v: "progress_value (now div 1000) (track_total_time st) = Inr v"
    "0 \<le> v" "v \<le> 100" "v \<le> spec_progress (now div 1000) (track_total_time st)"
    "spec_progress (now div 1000) (track_total_time st) \<le> v + 1" by blast
  from refresh_progress [OF v(1-3)] a(2)
  have "update_player now st
      = Inr (st\<lparr>track_current_time := now div 1000, track_bar := v,
                 track_current_time_label := format_time (now div 1000)\<rparr>)"
    by (simp add: update_player_def)
  with v show ?thesis by simp
qed

theorem progress_bar_value_witness:
  "0 < track_total_time sample_short
     \<and> track_current_time sample_short < track_total_time sample_short
     \<and> (0::int) \<le> 2000 div 1000 \<and> 2000 div 1000 \<le> track_total_time sample_short
     \<and> (\<exists>st'. update_player 2000 sample_short = Inr st'
          \<and> 0 \<le> track_bar st' \<and> track_bar st' \<le> 100)"
proof -
  have a: "0 < track_total_time sample_short"
    and b: "track_current_time sample_short < track_total_time sample_short"
    and c: "(0::int) \<le> 2000 div 1000" and d: "2000 div 1000 \<le> track_total_time sample_short"
    by (simp_all add: sample_short_def MediaPlayer_init_def)
  from progress_bar_value [OF a b c d]
  have "\<exists>st'. update_player 2000 sample_short = Inr st'
          \<and> 0 \<le> track_bar st' \<and> track_bar st' \<le> 100" by blast
  with a b c d show ?thesis by blast
qed

section \<open>Properties of loading\<close>

lemma load_audio_file:
  assumes "\<not> truthy file_path" "f \<noteq> []"
  shows "load_audio fs duration file_path (Some f) file_name st
           = Inr (st\<lparr>track_name := Some file_name, track := Some f,
                      player := vlc_set_media f (player st), track_title := file_name,
                      track_total_time := duration f div 1000,
                      track_total_time_label := format_time (duration f div 1000)\<rparr>)"
  using assms by (simp add: load_audio_def Let_def)



text \<open>
  Claim C7, as stated, fails: loading the short file while the long one is five seconds in
  succeeds and leaves the position at 5, the bar at 50 and the position label at \<open>00:05\<close>.
\<close>

theorem load_audio_keeps_position:
  "load_audio sample_fs sample_duration None (Some ''short.mp3'') ''Track1'' sample_playing
       = Inr (sample_playing
               \<lparr>track := Some ''short.mp3'', track_name := Some ''Track1'',
                player := (player sample_playing)\<lparr>p_media := Some ''short.mp3''\<rparr>,
                track_title := ''Track1'', track_total_time := 3,
                track_total_time_label := ''00:03''\<rparr>)
     \<and> track_current_time
          (state_of (load_audio sample_fs sample_duration None (Some ''short.mp3'') ''Track1''
             sample_playing)) = 5
     \<and> track_bar
          (state_of (load_audio sample_fs sample_duration None (Some ''short.mp3'') ''Track1''
             sample_playing)) = 50
     \<and> track_current_time_label
          (state_of (load_audio sample_fs sample_duration None (Some ''short.mp3'') ''Track1''
             sample_playing)) = ''00:05''"
proof -
  have "\<not> truthy None" and "''short.mp3'' \<noteq> []" by simp_all
  from load_audio_file [OF this, of sample_fs sample_duration "''Track1''" sample_playing]
  show ?thesis
    by (simp add: sample_duration_def vlc_set_media_def format_time_samples)
       (simp add: sample_playing_def sample_loaded_def MediaPlayer_init_def)
qed

text \<open>
  Claim C7, amended. A load through the \<open>file\<close> parameter succeeds and replaces the track: the
  medium, the decoder's medium, the name and the title are the new ones, the total duration is
  the medium's duration in whole seconds, greater than 0 exactly when the medium lasts 1000 ms
  or more, and the total-duration label shows it. The stored position, the progress bar and
  the position label are left as they were.
\<close>

theorem load_audio_replaces_track:
  "\<not> truthy file_path \<Longrightarrow> f \<noteq> [] \<Longrightarrow>
     \<exists>st'. load_audio fs duration file_path (Some f) file_name st = Inr st'
        \<and> st' = st\<lparr>track := Some f, track_name := Some file_name,
                      player := (player st)\<lparr>p_media := Some f\<rparr>, track_title := file_name,
                      track_total_time := duration f div 1000,
                      track_total_time_label := format_time (duration f div 1000)\<rparr>
        \<and> track st' = Some f \<and> p_media (player st') = Some f
        \<and> track_name st' = Some file_name \<and> track_title st' = file_name
        \<and> track_total_time st' = duration f div 1000
        \<and> (0 < track_total_time st' \<longleftrightarrow> 1000 \<le> duration f)
        \<and> track_total_time_label st' = format_time (track_total_time st')
        \<and> track_current_time st' = track_current_time st
        \<and> track_bar st' = track_bar st
        \<and> track_current_time_label st' = track_current_time_label st"
proof -
  assume a: "\<not> truthy file_path" "f \<noteq> []"
  have "(0 < duration f div 1000) = (1000 \<le> duration f)"
    by (simp add: pos_imp_zdiv_pos_iff)
  with load_audio_file [OF a, of fs duration file_name st] show ?thesis
    by (simp add: vlc_set_media_def)
qed

theorem load_audio_replaces_track_witness:
  "\<not> truthy None \<and> ''short.mp3'' \<noteq> []
     \<and> (\<exists>st'. load_audio sample_fs sample_duration None (Some ''short.mp3'') ''short''
                 MediaPlayer_init = Inr st'
            \<and> track st' = Some ''short.mp3'' \<and> track_total_time st' = 3
            \<and> track_current_time st' = 0)"
proof -
  have a: "\<not> truthy None" and b: "''short.mp3'' \<noteq> []" by simp_all
  from load_audio_replaces_track [OF a b, of sample_fs sample_duration "''short''" MediaPlayer_init]
  obtain st' where "load_audio sample_fs sample_duration None (Some ''short.mp3'') ''short''
                 MediaPlayer_init = Inr st'"
    "track st' = Some ''short.mp3''"
    "track_total_time st' = sample_duration ''short.mp3'' div 1000"
    "track_current_time st' = track_current_time MediaPlayer_init" by blast
  then have "\<exists>st'. load_audio sample_fs sample_duration None (Some ''short.mp3'') ''short''
                 MediaPlayer_init = Inr st'
            \<and> track st' = Some ''short.mp3'' \<and> track_total_time st' = 3
            \<and> track_current_time st' = 0"
    by (simp add: sample_duration_def MediaPlayer_init_def)
  with a b show ?thesis by blast
qed




section \<open>The sample application state\<close>

lemma sample_app_reached:
  "load_speech sample_fs sample_duration ''speech.mp3'' ''speech''
     (fresh_app\<lparr>files := [''speech.mp3'' \<mapsto> ''audio bytes'']\<rparr>) = Inr sample_app"
proof -
  have "\<not> truthy None" and "''speech.mp3'' \<noteq> []" by simp_all
  from load_audio_file [OF this, of sample_fs sample_duration "''speech''" MediaPlayer_init]
  show ?thesis
    by (simp add: load_speech_def fresh_app_def sample_app_def sample_loaded_def
        sample_duration_def vlc_set_media_def format_time_samples Let_def)
       (simp add: MediaPlayer_init_def)
qed

end
